theory Spec2Isabelle
  imports Main
begin

section \<open>Data model (services/user/userTypes.ts, instances/user/userStore.ts)\<close>

text \<open>
  The account record of the source is \<open>UserRecord\<close> (identical to \<open>UserEntity\<close>). The
  specification renames its fields: \<open>tier\<close> is \<open>profile\<close>, \<open>failedAttempts\<close> is
  \<open>loginAttempts\<close>, \<open>lastFailedAt\<close> is \<open>lastLoginAttempt\<close>, \<open>createdAt\<close> and
  \<open>modifiedAt\<close> are \<open>dateCreated\<close> and \<open>dateModified\<close>, the status values
  \<open>active\<close>, \<open>inactive\<close>, \<open>locked\<close>, \<open>pending\<close> are \<open>ativo\<close>, \<open>inativo\<close>,
  \<open>bloqueado\<close>, \<open>pendente\<close>, and the error \<open>ACCOUNT_LOCKED\<close> is \<open>ACCOUNT_BLOCKED\<close>.

  Timestamps are stored by the source as the ISO-8601 string of an instant
  (\<open>new Date().toISOString()\<close>) and read back with \<open>new Date(s).getTime()\<close>; the model
  keeps the instant itself, in milliseconds since the epoch, as an \<open>int\<close>. The field
  \<open>id\<close> is called \<open>user_id\<close> here, \<open>id\<close> being the identity function of HOL.
\<close>

datatype profile = Iniciante | Experiente | Administrador

datatype status = Ativo | Inativo | Bloqueado | Pendente

record UserRecord =
  user_id :: string
  username :: string
  email :: string
  passwordHash :: string
  profile :: profile
  avatar :: "string option"
  status :: status
  loginAttempts :: int
  lastLoginAttempt :: "int option"
  dateCreated :: int
  dateModified :: int

fun profileName :: "profile \<Rightarrow> string" where
  "profileName Iniciante = ''iniciante''"
| "profileName Experiente = ''experiente''"
| "profileName Administrador = ''administrador''"

datatype error =
    VALIDATION_ERROR
  | DUPLICATE_USERNAME
  | DUPLICATE_EMAIL
  | INVALID_CREDENTIALS
  | ACCOUNT_PENDING
  | ACCOUNT_BLOCKED
  | NOT_FOUND
  | TypeError

section \<open>Strings\<close>

text \<open>
  A string is a list of characters, and its \<open>length\<close> the number of them.
  \<open>String.prototype.toLowerCase\<close> is given on the ASCII range: the letters \<open>A\<close> to \<open>Z\<close>
  move to \<open>a\<close> to \<open>z\<close>, every other character stays. The general results below use of
  it only that it is a function and that it maps no other string to the empty one.
\<close>

definition toLowerChar :: "char \<Rightarrow> char" where
  "toLowerChar c =
     (case map_of (zip ''ABCDEFGHIJKLMNOPQRSTUVWXYZ'' ''abcdefghijklmnopqrstuvwxyz'') c of
        Some l \<Rightarrow> l
      | None \<Rightarrow> c)"

definition toLowerCase :: "string \<Rightarrow> string" where
  "toLowerCase s = map toLowerChar s"

text \<open>
  \<open>token.split('.')\<close>: the pieces between the dots, so a string with \<open>n\<close> dots gives
  \<open>n + 1\<close> pieces and the empty string gives one empty piece.
\<close>

fun split :: "string \<Rightarrow> string list" where
  "split [] = [[]]"
| "split (c # cs) =
     (if c = CHR ''.'' then [] # split cs
      else (case split cs of [] \<Rightarrow> [[c]] | p # ps \<Rightarrow> (c # p) # ps))"

text \<open>
  Array destructuring \<open>const [header, body, signature] = parts\<close> reads the positions 0, 1
  and 2; a missing position is \<open>undefined\<close> (\<open>None\<close>), further positions are ignored.
\<close>

definition element :: "'a list \<Rightarrow> nat \<Rightarrow> 'a option" where
  "element xs i = (if i < length xs then Some (xs ! i) else None)"

text \<open>A template literal prints \<open>undefined\<close> for a missing value.\<close>

definition template :: "string option \<Rightarrow> string" where
  "template v = (case v of None \<Rightarrow> ''undefined'' | Some s \<Rightarrow> s)"

section \<open>Library functions the source calls\<close>

text \<open>
  Values that \<open>JSON.parse\<close> returns and \<open>JSON.stringify\<close> prints. Numbers are integers
  here, as \<open>iat\<close> and \<open>exp\<close> are.
\<close>

datatype json =
    JNull
  | JBool bool
  | JNum int
  | JStr string
  | JArr "json list"
  | JObj "(string \<times> json) list"

text \<open>
  The functions of Node, zod and uuid that the source calls are parameters of the model:
  \<^item> \<open>sha256Hex p\<close> is \<open>crypto.createHash('sha256').update(p).digest('hex')\<close>;
  \<^item> \<open>hmacSha256Base64 k m\<close> is \<open>crypto.createHmac('sha256', k).update(m).digest('base64')\<close>;
  \<^item> \<open>jsonBase64 v\<close> is \<open>Buffer.from(JSON.stringify(v)).toString('base64')\<close>;
  \<^item> \<open>parseBase64Json s\<close> is \<open>JSON.parse(Buffer.from(s, 'base64').toString())\<close>, \<open>None\<close>
    when \<open>JSON.parse\<close> throws;
  \<^item> \<open>coerceLess v n\<close> is JavaScript's \<open>v < n\<close> for a value \<open>v\<close> that is not a number;
  \<^item> \<open>isEmail\<close>, \<open>isUuid\<close>, \<open>isUrl\<close> are zod's \<open>.email()\<close>, \<open>.uuid()\<close>, \<open>.url()\<close> checks.
\<close>

record runtime =
  sha256Hex :: "string \<Rightarrow> string"
  hmacSha256Base64 :: "string \<Rightarrow> string \<Rightarrow> string"
  jsonBase64 :: "json \<Rightarrow> string"
  parseBase64Json :: "string \<Rightarrow> json option"
  coerceLess :: "json \<Rightarrow> int \<Rightarrow> bool"
  isEmail :: "string \<Rightarrow> bool"
  isUuid :: "string \<Rightarrow> bool"
  isUrl :: "string \<Rightarrow> bool"

text \<open>The alphabet of the base64 encoding, padding included; it has no dot.\<close>

definition base64Alphabet :: string where
  "base64Alphabet = ''ABCDEFGHIJKLMNOPQRSTUVWXYZabcdefghijklmnopqrstuvwxyz0123456789+/=''"

definition isBase64 :: "string \<Rightarrow> bool" where
  "isBase64 s = list_all (\<lambda>c. c \<in> set base64Alphabet) s"

section \<open>Credential and token utilities (utils/auth)\<close>

definition hashPassword :: "runtime \<Rightarrow> string \<Rightarrow> string" where
  "hashPassword rt password = sha256Hex rt password"

definition comparePassword :: "runtime \<Rightarrow> string \<Rightarrow> string \<Rightarrow> bool" where
  "comparePassword rt password hash = (hashPassword rt password = hash)"

record TokenClaims =
  claim_id :: string
  claim_username :: string
  claim_profile :: string

definition headerObject :: json where
  "headerObject = JObj [(''alg'', JStr ''HS256''), (''typ'', JStr ''JWT'')]"

text \<open>
  The object \<open>{...payload, iat, exp}\<close>. \<open>Date.now()\<close> is read twice, first for \<open>iat\<close>
  and then for \<open>exp\<close>: \<open>t1\<close> and \<open>t2\<close> are the two readings, in milliseconds.
\<close>

definition payloadObject :: "int \<Rightarrow> int \<Rightarrow> TokenClaims \<Rightarrow> json" where
  "payloadObject t1 t2 payload =
     JObj [(''id'', JStr (claim_id payload)),
           (''username'', JStr (claim_username payload)),
           (''profile'', JStr (claim_profile payload)),
           (''iat'', JNum (t1 div 1000)),
           (''exp'', JNum (t2 div 1000 + 24 * 60 * 60))]"

definition generateToken :: "runtime \<Rightarrow> int \<Rightarrow> int \<Rightarrow> TokenClaims \<Rightarrow> string" where
  "generateToken rt t1 t2 payload =
     (let header = jsonBase64 rt headerObject;
          body = jsonBase64 rt (payloadObject t1 t2 payload);
          signature = hmacSha256Base64 rt ''secret-key'' (header @ ''.'' @ body)
      in header @ ''.'' @ body @ ''.'' @ signature)"

datatype token_error = InvalidToken

text \<open>
  \<open>payload.exp < n\<close> on a parsed value: reading a property of \<open>null\<close> throws (\<open>None\<close>);
  a value without the property gives \<open>undefined\<close>, and \<open>undefined < n\<close> is false.
\<close>

definition expBefore :: "runtime \<Rightarrow> json \<Rightarrow> int \<Rightarrow> bool option" where
  "expBefore rt payload n =
     (case payload of
        JNull \<Rightarrow> None
      | JObj kvs \<Rightarrow>
          (case map_of kvs ''exp'' of
             None \<Rightarrow> Some False
           | Some (JNum e) \<Rightarrow> Some (e < n)
           | Some v \<Rightarrow> Some (coerceLess rt v n))
      | _ \<Rightarrow> Some False)"

text \<open>
  \<open>verifyToken\<close>, with \<open>now\<close> the reading of \<open>Date.now()\<close>. Every exception raised in
  the \<open>try\<close> block is caught and replaced by the one error \<open>Invalid token\<close>.
\<close>

definition verifyToken :: "runtime \<Rightarrow> int \<Rightarrow> string \<Rightarrow> token_error + json" where
  "verifyToken rt now token =
     (let parts = split token;
          header = element parts 0;
          body = element parts 1;
          signature = element parts 2;
          expectedSignature =
            hmacSha256Base64 rt ''secret-key'' (template header @ ''.'' @ template body)
      in if signature \<noteq> Some expectedSignature then Inl InvalidToken
         else (case body of
                 None \<Rightarrow> Inl InvalidToken
               | Some b \<Rightarrow>
                   (case parseBase64Json rt b of
                      None \<Rightarrow> Inl InvalidToken
                    | Some payload \<Rightarrow>
                        (case expBefore rt payload (now div 1000) of
                           None \<Rightarrow> Inl InvalidToken
                         | Some True \<Rightarrow> Inl InvalidToken
                         | Some False \<Rightarrow> Inr payload))))"

text \<open>
  What \<open>verifyToken\<close> does once \<open>header\<close>, \<open>body\<close> and \<open>signature\<close> are bound to
  three strings.
\<close>

definition decide ::
  "runtime \<Rightarrow> int \<Rightarrow> string \<Rightarrow> string \<Rightarrow> string \<Rightarrow> token_error + json" where
  "decide rt now h b s =
     (if s \<noteq> hmacSha256Base64 rt ''secret-key'' (h @ ''.'' @ b) then Inl InvalidToken
      else (case parseBase64Json rt b of
              None \<Rightarrow> Inl InvalidToken
            | Some payload \<Rightarrow>
                (case expBefore rt payload (now div 1000) of
                   None \<Rightarrow> Inl InvalidToken
                 | Some True \<Rightarrow> Inl InvalidToken
                 | Some False \<Rightarrow> Inr payload)))"

section \<open>The in-memory store (instances/user/userStore.ts)\<close>

text \<open>
  \<open>records\<close> is a JavaScript \<open>Map\<close> from identifiers to records. A \<open>Map\<close> keeps its
  entries in insertion order, \<open>values()\<close> lists them in that order, and \<open>set\<close> on a key
  already present replaces the value in place: an association list with \<open>mapSet\<close>.
  The singleton \<open>userStore\<close> is passed to every operation and returned by it.
\<close>

type_synonym UserStore = "(string \<times> UserRecord) list"

fun mapSet :: "('k \<times> 'v) list \<Rightarrow> 'k \<Rightarrow> 'v \<Rightarrow> ('k \<times> 'v) list" where
  "mapSet [] k v = [(k, v)]"
| "mapSet ((k', v') # kvs) k v =
     (if k' = k then (k, v) # kvs else (k', v') # mapSet kvs k v)"

definition getAll :: "UserStore \<Rightarrow> UserRecord list" where
  "getAll store = map snd store"

definition getById :: "UserStore \<Rightarrow> string \<Rightarrow> UserRecord option" where
  "getById store i = map_of store i"

definition findByUsername :: "UserStore \<Rightarrow> string \<Rightarrow> UserRecord option" where
  "findByUsername store name =
     List.find (\<lambda>user. toLowerCase (username user) = toLowerCase name) (getAll store)"

definition findByEmail :: "UserStore \<Rightarrow> string \<Rightarrow> UserRecord option" where
  "findByEmail store mail =
     List.find (\<lambda>user. toLowerCase (email user) = toLowerCase mail) (getAll store)"

definition add :: "UserStore \<Rightarrow> UserRecord \<Rightarrow> UserStore" where
  "add store record = mapSet store (user_id record) record"

text \<open>
  \<open>update(id, data)\<close> stores \<open>{ ...existing, ...data }\<close>, a new object: a record found
  before the call is not changed by it. The partial record \<open>data\<close> is given as the function
  that overrides its fields in \<open>existing\<close>.
\<close>

definition update ::
  "UserStore \<Rightarrow> string \<Rightarrow> (UserRecord \<Rightarrow> UserRecord) \<Rightarrow> UserRecord option \<times> UserStore" where
  "update store i data =
     (case getById store i of
        None \<Rightarrow> (None, store)
      | Some existing \<Rightarrow>
          (let updated = data existing in (Some updated, mapSet store i updated)))"

text \<open>
  What the store guarantees by construction: a \<open>Map\<close> has no two entries with one key,
  and every record is stored under its own identifier (\<open>add\<close> uses \<open>record.id\<close>, and no
  update of the service changes \<open>id\<close>).
\<close>

definition wellFormed :: "UserStore \<Rightarrow> bool" where
  "wellFormed store =
     (distinct (map fst store) \<and> list_all (\<lambda>(k, r). user_id r = k) store)"

text \<open>
  The uniqueness that \<open>userRegister\<close> and \<open>userUpdateProfile\<close> maintain: no two stored
  records have the same email up to letter case.
\<close>

definition uniqueEmails :: "UserStore \<Rightarrow> bool" where
  "uniqueEmails store = distinct (map (\<lambda>r. toLowerCase (email r)) (getAll store))"

section \<open>Validation schemas (services/user/userValidation.ts)\<close>

definition isUpper :: "char \<Rightarrow> bool" where
  "isUpper c = (let n = (of_char c :: nat) in 65 \<le> n \<and> n \<le> 90)"

definition isLower :: "char \<Rightarrow> bool" where
  "isLower c = (let n = (of_char c :: nat) in 97 \<le> n \<and> n \<le> 122)"

definition isDigit :: "char \<Rightarrow> bool" where
  "isDigit c = (let n = (of_char c :: nat) in 48 \<le> n \<and> n \<le> 57)"

text \<open>\<open>/^[a-zA-Z0-9_]+$/\<close>, between 3 and 30 characters.\<close>

definition usernameSchema :: "string \<Rightarrow> bool" where
  "usernameSchema s =
     (3 \<le> length s \<and> length s \<le> 30 \<and> s \<noteq> [] \<and>
      list_all (\<lambda>c. isLower c \<or> isUpper c \<or> isDigit c \<or> c = CHR ''_'') s)"

definition emailSchema :: "runtime \<Rightarrow> string \<Rightarrow> bool" where
  "emailSchema rt s = isEmail rt s"

text \<open>At least 8 characters, with \<open>/[A-Z]/\<close>, \<open>/[0-9]/\<close> and \<open>/[^A-Za-z0-9]/\<close>.\<close>

definition passwordSchema :: "string \<Rightarrow> bool" where
  "passwordSchema s =
     (8 \<le> length s \<and> list_ex isUpper s \<and> list_ex isDigit s \<and>
      list_ex (\<lambda>c. \<not> (isUpper c \<or> isLower c \<or> isDigit c)) s)"

text \<open>
  Request bodies, as they are once their shape is right (every field of the expected
  type); an optional field is an \<open>option\<close>, and the nullable optional \<open>avatar\<close> an
  option of an option.
\<close>

record RegisterBody =
  reg_username :: string
  reg_email :: string
  reg_password :: string
  reg_profile :: profile

record LoginBody =
  login_username :: string
  login_password :: string

record UpdateBody =
  upd_username :: "string option"
  upd_email :: "string option"
  upd_profile :: "profile option"
  upd_avatar :: "string option option"

definition registerSchema :: "runtime \<Rightarrow> RegisterBody \<Rightarrow> bool" where
  "registerSchema rt body =
     (usernameSchema (reg_username body) \<and> emailSchema rt (reg_email body) \<and>
      passwordSchema (reg_password body) \<and>
      (reg_profile body = Iniciante \<or> reg_profile body = Experiente))"

definition loginSchema :: "LoginBody \<Rightarrow> bool" where
  "loginSchema body = (1 \<le> length (login_username body) \<and> 1 \<le> length (login_password body))"

definition updateSchema :: "runtime \<Rightarrow> UpdateBody \<Rightarrow> bool" where
  "updateSchema rt body =
     ((case upd_username body of None \<Rightarrow> True | Some s \<Rightarrow> usernameSchema s) \<and>
      (case upd_email body of None \<Rightarrow> True | Some s \<Rightarrow> emailSchema rt s) \<and>
      (case upd_profile body of None \<Rightarrow> True | Some p \<Rightarrow> p = Iniciante \<or> p = Experiente) \<and>
      (case upd_avatar body of None \<Rightarrow> True | Some None \<Rightarrow> True | Some (Some a) \<Rightarrow> isUrl rt a))"

definition paramsSchema :: "runtime \<Rightarrow> string \<Rightarrow> bool" where
  "paramsSchema rt i = isUuid rt i"

section \<open>The service (services/user/userService.ts)\<close>

record UserProfileResponse =
  res_id :: string
  res_username :: string
  res_email :: string
  res_profile :: profile
  res_avatar :: "string option"
  res_status :: status
  res_dateCreated :: int

record UserLoginResponse =
  out_id :: string
  out_username :: string
  out_email :: string
  out_profile :: profile
  out_token :: string

text \<open>
  The object literal that \<open>userRegister\<close>, \<open>userGetProfile\<close> and \<open>userUpdateProfile\<close>
  return: seven fields of the record, \<open>passwordHash\<close> not among them.
\<close>

definition publicProfile :: "UserRecord \<Rightarrow> UserProfileResponse" where
  "publicProfile user =
     \<lparr>res_id = user_id user, res_username = username user, res_email = email user,
      res_profile = profile user, res_avatar = avatar user, res_status = status user,
      res_dateCreated = dateCreated user\<rparr>"

text \<open>
  Every operation returns its result, or the \<open>ServiceError\<close> it throws, together with the
  store as the call leaves it. \<open>now\<close> is the clock reading of the call and \<open>newId\<close> the
  identifier that \<open>generateId\<close> draws.
\<close>

definition userRegister ::
  "runtime \<Rightarrow> int \<Rightarrow> string \<Rightarrow> RegisterBody \<Rightarrow> UserStore
     \<Rightarrow> (error + UserProfileResponse) \<times> UserStore" where
  "userRegister rt now newId body store =
     (if \<not> registerSchema rt body then (Inl VALIDATION_ERROR, store)
      else if findByUsername store (reg_username body) \<noteq> None
        then (Inl DUPLICATE_USERNAME, store)
      else if findByEmail store (reg_email body) \<noteq> None
        then (Inl DUPLICATE_EMAIL, store)
      else
        (let hashed = hashPassword rt (reg_password body);
             newUser =
               \<lparr>user_id = newId, username = reg_username body, email = reg_email body,
                passwordHash = hashed, profile = reg_profile body, avatar = None,
                status = Pendente, loginAttempts = 0, lastLoginAttempt = None,
                dateCreated = now, dateModified = now\<rparr>
         in (Inr (publicProfile newUser), add store newUser)))"

text \<open>
  \<open>userLogin\<close> reads the clock at up to four places: \<open>Date.now()\<close> in the block check,
  \<open>new Date()\<close> after a wrong password, and the two readings of \<open>generateToken\<close>.
\<close>

record LoginClock =
  blockCheckNow :: int
  failedNow :: int
  tokenIatNow :: int
  tokenExpNow :: int

text \<open>
  \<open>userStore.findByUsername(name) || userStore.findByEmail(name)\<close>: the lookup by
  username wins, the lookup by email is made only when it finds nothing.
\<close>

definition findUser :: "UserStore \<Rightarrow> string \<Rightarrow> UserRecord option" where
  "findUser store name =
     (case findByUsername store name of
        Some u \<Rightarrow> Some u
      | None \<Rightarrow> findByEmail store name)"

text \<open>
  \<open>user\<close> is the record object found by the lookup. The updates of the store replace the
  stored object by a new one, so that \<open>user.status\<close> and \<open>user.loginAttempts\<close> read
  after the unblocking update are still the values found by the lookup.
\<close>

definition userLogin ::
  "runtime \<Rightarrow> LoginClock \<Rightarrow> LoginBody \<Rightarrow> UserStore
     \<Rightarrow> (error + UserLoginResponse) \<times> UserStore" where
  "userLogin rt clock body store =
     (if \<not> loginSchema body then (Inl VALIDATION_ERROR, store)
      else
        (case findUser store (login_username body) of
           None \<Rightarrow> (Inl INVALID_CREDENTIALS, store)
         | Some user \<Rightarrow>
             (let blockTime = (case lastLoginAttempt user of Some t \<Rightarrow> t | None \<Rightarrow> 0);
                  thirtyMinutes = 30 * 60 * 1000
              in if status user = Bloqueado \<and> blockCheckNow clock - blockTime < thirtyMinutes
                 then (Inl ACCOUNT_BLOCKED, store)
                 else
                   (let store1 =
                          (if status user = Bloqueado
                           then snd (update store (user_id user)
                                  (\<lambda>r. r\<lparr>status := Ativo, loginAttempts := 0,
                                          lastLoginAttempt := None\<rparr>))
                           else store)
                    in if status user = Pendente then (Inl ACCOUNT_PENDING, store1)
                       else if \<not> comparePassword rt (login_password body) (passwordHash user)
                       then
                         (let newAttempts = loginAttempts user + 1;
                              now = failedNow clock
                          in if newAttempts \<ge> 3
                             then (Inl ACCOUNT_BLOCKED,
                                   snd (update store1 (user_id user)
                                     (\<lambda>r. r\<lparr>loginAttempts := newAttempts,
                                             lastLoginAttempt := Some now,
                                             status := Bloqueado\<rparr>)))
                             else (Inl INVALID_CREDENTIALS,
                                   snd (update store1 (user_id user)
                                     (\<lambda>r. r\<lparr>loginAttempts := newAttempts,
                                             lastLoginAttempt := Some now\<rparr>))))
                       else
                         (let store2 =
                                snd (update store1 (user_id user)
                                  (\<lambda>r. r\<lparr>loginAttempts := 0, lastLoginAttempt := None\<rparr>));
                              token =
                                generateToken rt (tokenIatNow clock) (tokenExpNow clock)
                                  \<lparr>claim_id = user_id user, claim_username = username user,
                                   claim_profile = profileName (profile user)\<rparr>
                          in (Inr \<lparr>out_id = user_id user, out_username = username user,
                                   out_email = email user, out_profile = profile user,
                                   out_token = token\<rparr>,
                              store2))))))"

definition userGetProfile ::
  "runtime \<Rightarrow> string \<Rightarrow> UserStore \<Rightarrow> error + UserProfileResponse" where
  "userGetProfile rt i store =
     (if \<not> paramsSchema rt i then Inl VALIDATION_ERROR
      else (case getById store i of
              None \<Rightarrow> Inl NOT_FOUND
            | Some user \<Rightarrow> Inr (publicProfile user)))"

text \<open>
  \<open>{ ...updateData, dateModified: now }\<close> spread over the existing record: a field
  present in the body replaces the stored one.
\<close>

definition applyUpdateData :: "UpdateBody \<Rightarrow> int \<Rightarrow> UserRecord \<Rightarrow> UserRecord" where
  "applyUpdateData updateData now r =
     r\<lparr>username := (case upd_username updateData of Some n \<Rightarrow> n | None \<Rightarrow> username r),
       email := (case upd_email updateData of Some m \<Rightarrow> m | None \<Rightarrow> email r),
       profile := (case upd_profile updateData of Some p \<Rightarrow> p | None \<Rightarrow> profile r),
       avatar := (case upd_avatar updateData of Some a \<Rightarrow> a | None \<Rightarrow> avatar r),
       dateModified := now\<rparr>"

text \<open>
  \<open>updateData.username && updateData.username !== user.username\<close> holds when the field
  is present, is not the empty string, and differs from the stored value as a string
  (case-sensitively); likewise for \<open>email\<close>.
\<close>

definition userUpdateProfile ::
  "runtime \<Rightarrow> int \<Rightarrow> string \<Rightarrow> UpdateBody \<Rightarrow> UserStore
     \<Rightarrow> (error + UserProfileResponse) \<times> UserStore" where
  "userUpdateProfile rt now i updateData store =
     (if \<not> paramsSchema rt i then (Inl VALIDATION_ERROR, store)
      else if \<not> updateSchema rt updateData then (Inl VALIDATION_ERROR, store)
      else
        (case getById store i of
           None \<Rightarrow> (Inl NOT_FOUND, store)
         | Some user \<Rightarrow>
             if (case upd_username updateData of
                   None \<Rightarrow> False
                 | Some n \<Rightarrow> n \<noteq> [] \<and> n \<noteq> username user \<and> findByUsername store n \<noteq> None)
             then (Inl DUPLICATE_USERNAME, store)
             else if (case upd_email updateData of
                   None \<Rightarrow> False
                 | Some m \<Rightarrow> m \<noteq> [] \<and> m \<noteq> email user \<and> findByEmail store m \<noteq> None)
             then (Inl DUPLICATE_EMAIL, store)
             else
               (case update store i (applyUpdateData updateData now) of
                  (None, store') \<Rightarrow> (Inl TypeError, store')
                | (Some updated, store') \<Rightarrow> (Inr (publicProfile updated), store'))))"

section \<open>The parts of an issued token\<close>

text \<open>The three constants \<open>header\<close>, \<open>body\<close> and \<open>signature\<close> of \<open>generateToken\<close>.\<close>

definition tokenHeader :: "runtime \<Rightarrow> string" where
  "tokenHeader rt = jsonBase64 rt headerObject"

definition tokenBody :: "runtime \<Rightarrow> int \<Rightarrow> int \<Rightarrow> TokenClaims \<Rightarrow> string" where
  "tokenBody rt t1 t2 payload = jsonBase64 rt (payloadObject t1 t2 payload)"

definition tokenSignature :: "runtime \<Rightarrow> int \<Rightarrow> int \<Rightarrow> TokenClaims \<Rightarrow> string" where
  "tokenSignature rt t1 t2 payload =
     hmacSha256Base64 rt ''secret-key'' (tokenHeader rt @ ''.'' @ tokenBody rt t1 t2 payload)"

text \<open>
  What the token codec needs from the library at one payload: base64 text is made of the
  base64 alphabet, and \<open>JSON.parse\<close> reads back what \<open>JSON.stringify\<close> printed.
\<close>

definition encodes :: "runtime \<Rightarrow> int \<Rightarrow> int \<Rightarrow> TokenClaims \<Rightarrow> bool" where
  "encodes rt t1 t2 payload =
     (isBase64 (tokenHeader rt) \<and> isBase64 (tokenBody rt t1 t2 payload) \<and>
      isBase64 (tokenSignature rt t1 t2 payload) \<and>
      parseBase64Json rt (tokenBody rt t1 t2 payload) = Some (payloadObject t1 t2 payload))"

section \<open>Sample data\<close>

text \<open>
  A table of the library's values at the inputs of the examples below: the SHA-256
  digests of two passwords, and the header, body and signature of the token that the
  source issues for \<open>sampleClaims\<close> at \<open>sampleIssuedAt\<close> (2100-01-01T00:00:00Z).
\<close>

definition aliceId :: string where
  "aliceId = ''9b2e4c1a-7d3f-4a5b-8c6d-1e2f3a4b5c6d''"

definition bobId :: string where
  "bobId = ''3f1d2c4b-5a69-4788-9a0b-c1d2e3f4a5b6''"

definition carolId :: string where
  "carolId = ''0a1b2c3d-4e5f-4a6b-8c7d-9e0f1a2b3c4d''"

definition sampleClaims :: TokenClaims where
  "sampleClaims =
     \<lparr>claim_id = aliceId, claim_username = ''alice'', claim_profile = ''iniciante''\<rparr>"

definition sampleIssuedAt :: int where
  "sampleIssuedAt = 4102444800000"

definition sampleHeader :: string where
  "sampleHeader = ''eyJhbGciOiJIUzI1NiIsInR5cCI6IkpXVCJ9''"

definition sampleBody :: string where
  "sampleBody = ''eyJpZCI6IjliMmU0YzFhLTdkM2YtNGE1Yi04YzZkLTFlMmYzYTRiNWM2ZCIsInVzZXJuYW1lIjoiYWxpY2UiLCJwcm9maWxlIjoiaW5pY2lhbnRlIiwiaWF0Ijo0MTAyNDQ0ODAwLCJleHAiOjQxMDI1MzEyMDB9''"

definition sampleSignature :: string where
  "sampleSignature = ''vxO86pyd2ICEocgEA3pA9mI4xiDIfywoQ5iSQhGnu2I=''"

definition sampleRuntime :: runtime where
  "sampleRuntime =
     \<lparr>sha256Hex = (\<lambda>p.
        if p = ''Secret#123''
          then ''b1a7a115a15f4430b65f2a41696f27b94444109891d0498ad324f70274e1ca33''
        else if p = ''Wrong#123''
          then ''ff76a0203bba4ebd73319f8ed42c1a9d2d35082ffc4cf9aae63746cd8725d1e5''
        else []),
      hmacSha256Base64 = (\<lambda>k m.
        if k = ''secret-key'' \<and> m = sampleHeader @ ''.'' @ sampleBody
          then sampleSignature else []),
      jsonBase64 = (\<lambda>v.
        if v = headerObject then sampleHeader
        else if v = payloadObject sampleIssuedAt sampleIssuedAt sampleClaims then sampleBody
        else []),
      parseBase64Json = (\<lambda>s.
        if s = sampleBody then Some (payloadObject sampleIssuedAt sampleIssuedAt sampleClaims)
        else None),
      coerceLess = (\<lambda>v n. False),
      isEmail = (\<lambda>s. s \<in> set [''alice@example.com'', ''Alice@example.com'',
                               ''bob@example.com'', ''BOB@example.com'',
                               ''carol@example.com'']),
      isUuid = (\<lambda>s. s \<in> set [aliceId, bobId, carolId]),
      isUrl = (\<lambda>s. False)\<rparr>"

definition alice :: UserRecord where
  "alice =
     \<lparr>user_id = aliceId, username = ''alice'', email = ''alice@example.com'',
      passwordHash = ''b1a7a115a15f4430b65f2a41696f27b94444109891d0498ad324f70274e1ca33'',
      profile = Iniciante, avatar = None, status = Ativo, loginAttempts = 0,
      lastLoginAttempt = None, dateCreated = 1700000000000, dateModified = 1700000000000\<rparr>"

definition bob :: UserRecord where
  "bob =
     \<lparr>user_id = bobId, username = ''bob_42'', email = ''bob@example.com'',
      passwordHash = ''ff76a0203bba4ebd73319f8ed42c1a9d2d35082ffc4cf9aae63746cd8725d1e5'',
      profile = Experiente, avatar = None, status = Ativo, loginAttempts = 0,
      lastLoginAttempt = None, dateCreated = 1700000500000, dateModified = 1700000500000\<rparr>"

definition sampleStore :: UserStore where
  "sampleStore = [(aliceId, alice), (bobId, bob)]"

text \<open>
  Variants of the first account: locked 31 minutes before \<open>sampleIssuedAt\<close> after three
  failed attempts, and not yet confirmed. \<open>sampleClock\<close> reads \<open>sampleIssuedAt\<close> at every
  place.
\<close>

definition lockedSince :: int where
  "lockedSince = 4102442940000"

definition lockedAlice :: UserRecord where
  "lockedAlice =
     alice\<lparr>status := Bloqueado, loginAttempts := 3, lastLoginAttempt := Some lockedSince\<rparr>"

definition pendingAlice :: UserRecord where
  "pendingAlice = alice\<lparr>status := Pendente\<rparr>"

definition sampleClock :: LoginClock where
  "sampleClock =
     \<lparr>blockCheckNow = sampleIssuedAt, failedNow = sampleIssuedAt,
      tokenIatNow = sampleIssuedAt, tokenExpNow = sampleIssuedAt\<rparr>"

definition wrongLogin :: LoginBody where
  "wrongLogin = \<lparr>login_username = ''alice'', login_password = ''Wrong#123''\<rparr>"

definition rightLogin :: LoginBody where
  "rightLogin = \<lparr>login_username = ''Alice@Example.com'', login_password = ''Secret#123''\<rparr>"

definition lockedStore :: UserStore where
  "lockedStore = [(aliceId, lockedAlice), (bobId, bob)]"

definition pendingStore :: UserStore where
  "pendingStore = [(aliceId, pendingAlice), (bobId, bob)]"

section \<open>Consecutive logins\<close>

text \<open>Login attempts made one after the other, each on the store the previous one left.\<close>

fun consecutiveLogins ::
  "runtime \<Rightarrow> (LoginClock \<times> LoginBody) list \<Rightarrow> UserStore
     \<Rightarrow> (error + UserLoginResponse) list \<times> UserStore" where
  "consecutiveLogins rt [] store = ([], store)"
| "consecutiveLogins rt ((clock, body) # rest) store =
     (case userLogin rt clock body store of
        (result, store1) \<Rightarrow>
          (case consecutiveLogins rt rest store1 of
             (results, store2) \<Rightarrow> (result # results, store2)))"

text \<open>Request bodies for the examples of registration and profile update.\<close>

definition carolRegistration :: RegisterBody where
  "carolRegistration =
     \<lparr>reg_username = ''carol_7'', reg_email = ''carol@example.com'',
      reg_password = ''Secret#123'', reg_profile = Experiente\<rparr>"

definition emailOfBob :: UpdateBody where
  "emailOfBob =
     \<lparr>upd_username = None, upd_email = Some ''BOB@example.com'', upd_profile = None,
      upd_avatar = None\<rparr>"

definition upperCaseName :: UpdateBody where
  "upperCaseName =
     \<lparr>upd_username = Some ''ALICE'', upd_email = None, upd_profile = None,
      upd_avatar = None\<rparr>"

definition upperCaseEmail :: UpdateBody where
  "upperCaseEmail =
     \<lparr>upd_username = None, upd_email = Some ''Alice@example.com'', upd_profile = None,
      upd_avatar = None\<rparr>"

definition nameAndEmailOfBob :: UpdateBody where
  "nameAndEmailOfBob =
     \<lparr>upd_username = Some ''bob_42'', upd_email = Some ''BOB@example.com'',
      upd_profile = None, upd_avatar = None\<rparr>"


section \<open>Splitting at dots\<close>

lemma split_not_Nil: "split s \<noteq> []"
  by (induction s) (auto split: list.splits)

lemma split_no_dot: "CHR ''.'' \<notin> set s \<Longrightarrow> split s = [s]"
  by (induction s) auto

lemma split_append_dot:
  "CHR ''.'' \<notin> set a \<Longrightarrow> split (a @ CHR ''.'' # b) = a # split b"
  by (induction a) auto

lemma split_pieces_no_dot: "p \<in> set (split s) \<Longrightarrow> CHR ''.'' \<notin> set p"
  by (induction s arbitrary: p) (auto split: if_splits list.splits)

lemma hd_split_length: "length (hd (split s)) \<le> length s"
  by (induction s) (auto split: list.splits)

lemma hd_split_dot: "CHR ''.'' \<in> set s \<Longrightarrow> length (hd (split s)) < length s"
  using hd_split_length
  by (induction s) (auto split: list.splits simp: less_Suc_eq_le)

lemma dot_not_base64: "CHR ''.'' \<notin> set base64Alphabet"
  by (simp add: base64Alphabet_def)

lemma isBase64_no_dot: "isBase64 s \<Longrightarrow> CHR ''.'' \<notin> set s"
  using dot_not_base64 unfolding isBase64_def list_all_iff by blast

section \<open>The token codec\<close>

lemma verifyToken_pieces:
  "split token = h # b # s # rest \<Longrightarrow> verifyToken rt now token = decide rt now h b s"
  by (simp add: verifyToken_def decide_def element_def template_def Let_def)

lemma verifyToken_joined:
  assumes "CHR ''.'' \<notin> set h" "CHR ''.'' \<notin> set b"
  shows "verifyToken rt now (h @ CHR ''.'' # b @ CHR ''.'' # s) = decide rt now h b (hd (split s))"
proof -
  obtain p ps where ps: "split s = p # ps" using split_not_Nil by (cases "split s") auto
  have "split (h @ CHR ''.'' # b @ CHR ''.'' # s) = h # b # p # ps"
    using assms ps by (simp add: split_append_dot)
  then show ?thesis using ps by (simp add: verifyToken_pieces)
qed

lemma verifyToken_short:
  "length (split token) < 3 \<Longrightarrow> verifyToken rt now token = Inl InvalidToken"
  by (simp add: verifyToken_def element_def Let_def)

lemma generateToken_parts:
  "generateToken rt t1 t2 c =
     tokenHeader rt @ CHR ''.'' # tokenBody rt t1 t2 c @ CHR ''.'' # tokenSignature rt t1 t2 c"
  by (simp add: generateToken_def tokenHeader_def tokenBody_def tokenSignature_def Let_def)

lemma expBefore_payloadObject:
  "expBefore rt (payloadObject t1 t2 c) n = Some (t2 div 1000 + 24 * 60 * 60 < n)"
  by (simp add: expBefore_def payloadObject_def)

text \<open>
  A token that \<open>generateToken\<close> issued is accepted exactly as long as the clock, in whole
  seconds, has not passed \<open>exp\<close>.
\<close>

lemma verifyToken_issued:
  assumes lib: "encodes rt t1 t2 claims"
  shows "verifyToken rt now (generateToken rt t1 t2 claims) =
      (if t2 div 1000 + 24 * 60 * 60 < now div 1000 then Inl InvalidToken
       else Inr (payloadObject t1 t2 claims))"
proof -
  let ?h = "tokenHeader rt" and ?b = "tokenBody rt t1 t2 claims"
  let ?s = "tokenSignature rt t1 t2 claims"
  have nd: "CHR ''.'' \<notin> set ?h" "CHR ''.'' \<notin> set ?b" "CHR ''.'' \<notin> set ?s"
    using lib by (auto simp: encodes_def dest: isBase64_no_dot)
  have parse: "parseBase64Json rt ?b = Some (payloadObject t1 t2 claims)"
    using lib by (simp add: encodes_def)
  have sig: "hmacSha256Base64 rt ''secret-key'' (?h @ CHR ''.'' # ?b) = ?s"
    by (simp add: tokenSignature_def)
  have "verifyToken rt now (?h @ CHR ''.'' # ?b @ CHR ''.'' # ?s) = decide rt now ?h ?b ?s"
    using nd by (simp add: verifyToken_joined split_no_dot)
  also have "\<dots> = (if t2 div 1000 + 24 * 60 * 60 < now div 1000 then Inl InvalidToken
       else Inr (payloadObject t1 t2 claims))"
    unfolding decide_def using sig parse by (simp add: expBefore_payloadObject)
  finally show ?thesis by (simp only: generateToken_parts)
qed

text \<open>
  A signature of the same length that differs from the issued one is rejected, whether
  the changed byte is a dot or not: a dot cuts the third piece short.
\<close>

lemma verifyToken_altered:
  assumes lib: "encodes rt t1 t2 claims"
    and i: "i < length (tokenSignature rt t1 t2 claims)"
    and c: "c \<noteq> tokenSignature rt t1 t2 claims ! i"
  shows "verifyToken rt now
           (tokenHeader rt @ CHR ''.'' # tokenBody rt t1 t2 claims @ CHR ''.'' #
            (tokenSignature rt t1 t2 claims)[i := c]) = Inl InvalidToken"
proof -
  let ?h = "tokenHeader rt" and ?b = "tokenBody rt t1 t2 claims"
  let ?s = "tokenSignature rt t1 t2 claims"
  have nd: "CHR ''.'' \<notin> set ?h" "CHR ''.'' \<notin> set ?b"
    using lib by (auto simp: encodes_def dest: isBase64_no_dot)
  have sig: "hmacSha256Base64 rt ''secret-key'' (?h @ CHR ''.'' # ?b) = ?s"
    by (simp add: tokenSignature_def)
  have ne: "?s[i := c] \<noteq> ?s" using i c by (metis nth_list_update_eq)
  have "hd (split (?s[i := c])) \<noteq> ?s"
  proof (cases "CHR ''.'' \<in> set (?s[i := c])")
    case True
    then have "length (hd (split (?s[i := c]))) < length ?s"
      using hd_split_dot[of "?s[i := c]"] by simp
    then show ?thesis by auto
  next
    case False
    then show ?thesis using ne by (simp add: split_no_dot)
  qed
  then have "decide rt now ?h ?b (hd (split (?s[i := c]))) = Inl InvalidToken"
    unfolding decide_def using sig by simp
  then show ?thesis by (simp only: verifyToken_joined[OF nd])
qed

lemma sample_encodes: "encodes sampleRuntime sampleIssuedAt sampleIssuedAt sampleClaims"
  by (simp add: encodes_def tokenHeader_def tokenBody_def tokenSignature_def sampleRuntime_def
      isBase64_def base64Alphabet_def sampleHeader_def sampleBody_def sampleSignature_def
      headerObject_def payloadObject_def)

lemma sample_token:
  "generateToken sampleRuntime sampleIssuedAt sampleIssuedAt sampleClaims =
     sampleHeader @ ''.'' @ sampleBody @ ''.'' @ sampleSignature"
  by (simp add: generateToken_def sampleRuntime_def headerObject_def payloadObject_def Let_def)

lemma sample_no_dot:
  "CHR ''.'' \<notin> set sampleHeader" "CHR ''.'' \<notin> set sampleBody"
  "CHR ''.'' \<notin> set sampleSignature"
  by (simp_all add: sampleHeader_def sampleBody_def sampleSignature_def)

lemma sample_split_four:
  "split (sampleHeader @ ''.'' @ sampleBody @ ''.'' @ sampleSignature @ ''.x'')
     = [sampleHeader, sampleBody, sampleSignature, ''x'']"
  using sample_no_dot by (simp add: split_append_dot)

lemma sample_decide:
  "decide sampleRuntime 1793664000000 sampleHeader sampleBody sampleSignature
     = Inr (payloadObject sampleIssuedAt sampleIssuedAt sampleClaims)"
  by (simp add: decide_def sampleRuntime_def expBefore_payloadObject sampleIssuedAt_def)

subsection \<open>Claim C2\<close>

text \<open>
  C2 as stated, that every string which does not split into exactly three dot-separated
  components is rejected, fails for four components: \<open>verifyToken\<close> destructures the
  first three pieces and never looks at the number of pieces. The string below is the
  token issued for \<open>sampleClaims\<close> with \<open>.x\<close> appended; it has four components and is
  accepted (clock: 2026-11-03T00:00:00Z).
\<close>

theorem verifyToken_four_components_accepted:
  "length (split (sampleHeader @ ''.'' @ sampleBody @ ''.'' @ sampleSignature @ ''.x'')) = 4 \<and>
   verifyToken sampleRuntime 1793664000000
     (sampleHeader @ ''.'' @ sampleBody @ ''.'' @ sampleSignature @ ''.x'')
     = Inr (payloadObject sampleIssuedAt sampleIssuedAt sampleClaims)"
proof
  show "length (split (sampleHeader @ ''.'' @ sampleBody @ ''.'' @ sampleSignature @ ''.x'')) = 4"
    by (simp only: sample_split_four) simp
  show "verifyToken sampleRuntime 1793664000000
     (sampleHeader @ ''.'' @ sampleBody @ ''.'' @ sampleSignature @ ''.x'')
     = Inr (payloadObject sampleIssuedAt sampleIssuedAt sampleClaims)"
    by (simp only: verifyToken_pieces[OF sample_split_four] sample_decide)
qed

text \<open>
  C2, amended: every string that splits into fewer than three dot-separated components
  is rejected with \<open>InvalidToken\<close>; of a string with three or more components only the
  first three are verified, the others are ignored.
\<close>

theorem verifyToken_component_count:
  "(length (split token) < 3 \<longrightarrow> verifyToken rt now token = Inl InvalidToken) \<and>
   (\<forall>h b s rest. split token = h # b # s # rest \<longrightarrow>
      verifyToken rt now token = verifyToken rt now (h @ ''.'' @ b @ ''.'' @ s))"
proof (intro conjI allI impI)
  assume "length (split token) < 3"
  then show "verifyToken rt now token = Inl InvalidToken" by (rule verifyToken_short)
next
  fix h b s rest
  assume sp: "split token = h # b # s # rest"
  have "\<And>p. p \<in> set (split token) \<Longrightarrow> CHR ''.'' \<notin> set p"
    by (rule split_pieces_no_dot)
  then have nd: "CHR ''.'' \<notin> set h" "CHR ''.'' \<notin> set b" "CHR ''.'' \<notin> set s"
    using sp by simp_all
  have "verifyToken rt now (h @ CHR ''.'' # b @ CHR ''.'' # s) = decide rt now h b s"
    using nd by (simp add: verifyToken_joined split_no_dot)
  then show "verifyToken rt now token = verifyToken rt now (h @ ''.'' @ b @ ''.'' @ s)"
    using sp by (simp add: verifyToken_pieces)
qed

theorem verifyToken_component_count_witness:
  "length (split ''abc.def'') < 3 \<and>
   verifyToken sampleRuntime 1793664000000 ''abc.def'' = Inl InvalidToken \<and>
   split (sampleHeader @ ''.'' @ sampleBody @ ''.'' @ sampleSignature @ ''.x'')
     = sampleHeader # sampleBody # sampleSignature # [''x''] \<and>
   verifyToken sampleRuntime 1793664000000
     (sampleHeader @ ''.'' @ sampleBody @ ''.'' @ sampleSignature @ ''.x'')
     = verifyToken sampleRuntime 1793664000000
         (sampleHeader @ ''.'' @ sampleBody @ ''.'' @ sampleSignature)"
proof -
  have short: "length (split ''abc.def'') < 3" by simp
  have four: "split (sampleHeader @ ''.'' @ sampleBody @ ''.'' @ sampleSignature @ ''.x'')
     = sampleHeader # sampleBody # sampleSignature # [''x'']"
    by (rule sample_split_four)
  from verifyToken_component_count[of "''abc.def''" sampleRuntime 1793664000000] short
  have a: "verifyToken sampleRuntime 1793664000000 ''abc.def'' = Inl InvalidToken"
    by blast
  from verifyToken_component_count
         [of "sampleHeader @ ''.'' @ sampleBody @ ''.'' @ sampleSignature @ ''.x''"
             sampleRuntime 1793664000000] four
  have b: "verifyToken sampleRuntime 1793664000000
     (sampleHeader @ ''.'' @ sampleBody @ ''.'' @ sampleSignature @ ''.x'')
     = verifyToken sampleRuntime 1793664000000
         (sampleHeader @ ''.'' @ sampleBody @ ''.'' @ sampleSignature)"
    by blast
  show ?thesis using short four a b by (intro conjI)
qed

subsection \<open>Claim C4\<close>

text \<open>
  C4: a token issued for the claims \<open>{id, username, profile}\<close> and verified at a time
  strictly before \<open>iat + 24h\<close> gives back the object with exactly the fields \<open>id\<close>,
  \<open>username\<close> and \<open>profile\<close> of the claims, unchanged, followed by \<open>iat\<close> and
  \<open>exp = iat + 24h\<close> (in seconds; \<open>exp\<close> is taken from the second reading of the
  clock); verified after \<open>exp\<close> it is rejected with \<open>InvalidToken\<close>; and with any single
  byte of the signature component altered it is rejected with \<open>InvalidToken\<close>. Times are
  compared in whole seconds, the unit of \<open>iat\<close> and \<open>exp\<close>. The library is assumed to
  encode into the base64 alphabet and to parse back what it printed (\<open>encodes\<close>), and the
  second reading of the clock in \<open>generateToken\<close> not to precede the first.
\<close>

theorem token_round_trip:
  assumes lib: "encodes rt t1 t2 claims" and mono: "t1 \<le> t2"
  shows "(now div 1000 < t1 div 1000 + 24 * 60 * 60 \<longrightarrow>
            verifyToken rt now (generateToken rt t1 t2 claims)
              = Inr (JObj [(''id'', JStr (claim_id claims)),
                           (''username'', JStr (claim_username claims)),
                           (''profile'', JStr (claim_profile claims)),
                           (''iat'', JNum (t1 div 1000)),
                           (''exp'', JNum (t2 div 1000 + 24 * 60 * 60))])) \<and>
         (t2 div 1000 + 24 * 60 * 60 < now div 1000 \<longrightarrow>
            verifyToken rt now (generateToken rt t1 t2 claims) = Inl InvalidToken) \<and>
         (\<forall>i c. i < length (tokenSignature rt t1 t2 claims) \<and>
                 c \<noteq> tokenSignature rt t1 t2 claims ! i \<longrightarrow>
            verifyToken rt now
              (tokenHeader rt @ ''.'' @ tokenBody rt t1 t2 claims @ ''.'' @
               (tokenSignature rt t1 t2 claims)[i := c]) = Inl InvalidToken)"
proof -
  have le: "t1 div 1000 \<le> t2 div 1000" using mono by (simp add: zdiv_mono1)
  show ?thesis
  proof (intro conjI allI impI)
    assume "now div 1000 < t1 div 1000 + 24 * 60 * 60"
    then have "\<not> t2 div 1000 + 24 * 60 * 60 < now div 1000" using le by linarith
    then have "verifyToken rt now (generateToken rt t1 t2 claims)
        = Inr (payloadObject t1 t2 claims)"
      by (simp only: verifyToken_issued[OF lib] if_False)
    then show "verifyToken rt now (generateToken rt t1 t2 claims)
        = Inr (JObj [(''id'', JStr (claim_id claims)),
                     (''username'', JStr (claim_username claims)),
                     (''profile'', JStr (claim_profile claims)),
                     (''iat'', JNum (t1 div 1000)),
                     (''exp'', JNum (t2 div 1000 + 24 * 60 * 60))])"
      by (simp only: payloadObject_def)
  next
    assume "t2 div 1000 + 24 * 60 * 60 < now div 1000"
    then show "verifyToken rt now (generateToken rt t1 t2 claims) = Inl InvalidToken"
      by (simp only: verifyToken_issued[OF lib] if_True)
  next
    fix i c
    assume "i < length (tokenSignature rt t1 t2 claims) \<and>
            c \<noteq> tokenSignature rt t1 t2 claims ! i"
    then show "verifyToken rt now
              (tokenHeader rt @ ''.'' @ tokenBody rt t1 t2 claims @ ''.'' @
               (tokenSignature rt t1 t2 claims)[i := c]) = Inl InvalidToken"
      using verifyToken_altered[OF lib, of i c now] by simp
  qed
qed

theorem token_round_trip_witness:
  "encodes sampleRuntime sampleIssuedAt sampleIssuedAt sampleClaims \<and>
   sampleIssuedAt \<le> sampleIssuedAt \<and>
   verifyToken sampleRuntime (sampleIssuedAt + 3600000)
     (generateToken sampleRuntime sampleIssuedAt sampleIssuedAt sampleClaims)
     = Inr (JObj [(''id'', JStr ''9b2e4c1a-7d3f-4a5b-8c6d-1e2f3a4b5c6d''),
                  (''username'', JStr ''alice''),
                  (''profile'', JStr ''iniciante''),
                  (''iat'', JNum 4102444800),
                  (''exp'', JNum 4102531200)]) \<and>
   verifyToken sampleRuntime (sampleIssuedAt + 86401000)
     (generateToken sampleRuntime sampleIssuedAt sampleIssuedAt sampleClaims)
     = Inl InvalidToken \<and>
   verifyToken sampleRuntime (sampleIssuedAt + 3600000)
     (tokenHeader sampleRuntime @ ''.'' @
      tokenBody sampleRuntime sampleIssuedAt sampleIssuedAt sampleClaims @ ''.'' @
      (tokenSignature sampleRuntime sampleIssuedAt sampleIssuedAt sampleClaims)[0 := CHR ''w''])
     = Inl InvalidToken"
proof -
  note rt = token_round_trip[OF sample_encodes order_refl]
  have early: "(sampleIssuedAt + 3600000) div 1000 < sampleIssuedAt div 1000 + 24 * 60 * 60"
    by (simp add: sampleIssuedAt_def)
  have late: "sampleIssuedAt div 1000 + 24 * 60 * 60 < (sampleIssuedAt + 86401000) div 1000"
    by (simp add: sampleIssuedAt_def)
  have sig: "tokenSignature sampleRuntime sampleIssuedAt sampleIssuedAt sampleClaims
      = sampleSignature"
    by (simp add: tokenSignature_def tokenHeader_def tokenBody_def sampleRuntime_def
        headerObject_def payloadObject_def)
  have byte: "0 < length (tokenSignature sampleRuntime sampleIssuedAt sampleIssuedAt sampleClaims) \<and>
      CHR ''w'' \<noteq> tokenSignature sampleRuntime sampleIssuedAt sampleIssuedAt sampleClaims ! 0"
    by (simp add: sig sampleSignature_def)
  have fields: "claim_id sampleClaims = ''9b2e4c1a-7d3f-4a5b-8c6d-1e2f3a4b5c6d''"
    "claim_username sampleClaims = ''alice''" "claim_profile sampleClaims = ''iniciante''"
    "sampleIssuedAt div 1000 = 4102444800"
    "sampleIssuedAt div 1000 + 24 * 60 * 60 = 4102531200"
    by (simp_all add: sampleClaims_def aliceId_def sampleIssuedAt_def)
  have a: "verifyToken sampleRuntime (sampleIssuedAt + 3600000)
     (generateToken sampleRuntime sampleIssuedAt sampleIssuedAt sampleClaims)
     = Inr (JObj [(''id'', JStr ''9b2e4c1a-7d3f-4a5b-8c6d-1e2f3a4b5c6d''),
                  (''username'', JStr ''alice''),
                  (''profile'', JStr ''iniciante''),
                  (''iat'', JNum 4102444800),
                  (''exp'', JNum 4102531200)])"
    using rt[of "sampleIssuedAt + 3600000", THEN conjunct1, rule_format, OF early]
    unfolding fields by simp
  have b: "verifyToken sampleRuntime (sampleIssuedAt + 86401000)
     (generateToken sampleRuntime sampleIssuedAt sampleIssuedAt sampleClaims)
     = Inl InvalidToken"
    using rt[of "sampleIssuedAt + 86401000"] late by blast
  have c: "verifyToken sampleRuntime (sampleIssuedAt + 3600000)
     (tokenHeader sampleRuntime @ ''.'' @
      tokenBody sampleRuntime sampleIssuedAt sampleIssuedAt sampleClaims @ ''.'' @
      (tokenSignature sampleRuntime sampleIssuedAt sampleIssuedAt sampleClaims)[0 := CHR ''w''])
     = Inl InvalidToken"
    using rt[of "sampleIssuedAt + 3600000"] byte by blast
  have refl: "sampleIssuedAt \<le> sampleIssuedAt" by simp
  show ?thesis using sample_encodes refl a b c by (intro conjI)
qed

section \<open>The store\<close>

lemma getById_mapSet_same: "getById (mapSet store k v) k = Some v"
  unfolding getById_def by (induction store) auto

lemma getById_mapSet_other: "k' \<noteq> k \<Longrightarrow> getById (mapSet store k v) k' = getById store k'"
  unfolding getById_def by (induction store) auto

lemma mapSet_mapSet: "mapSet (mapSet store k v) k w = mapSet store k w"
  by (induction store) auto

lemma getById_member: "getById store k = Some r \<Longrightarrow> r \<in> set (getAll store)"
  unfolding getById_def getAll_def by (auto dest: map_of_SomeD intro: rev_image_eqI)

lemma wellFormed_getById:
  assumes "wellFormed store" "r \<in> set (getAll store)"
  shows "getById store (user_id r) = Some r"
proof -
  from assms(2) obtain k where kr: "(k, r) \<in> set store"
    unfolding getAll_def by auto
  with assms(1) have "user_id r = k" unfolding wellFormed_def list_all_iff by auto
  with kr assms(1) show ?thesis unfolding getById_def wellFormed_def by simp
qed

lemma getAll_mapSet:
  "wellFormed store \<Longrightarrow> k \<in> fst ` set store \<Longrightarrow>
   getAll (mapSet store k v) = map (\<lambda>r. if user_id r = k then v else r) (getAll store)"
proof (induction store)
  case Nil
  then show ?case by simp
next
  case (Cons e store)
  obtain k' r' where e: "e = (k', r')" by (cases e)
  have wf: "wellFormed store" and id: "user_id r' = k'" and fresh: "k' \<notin> fst ` set store"
    using Cons.prems(1) unfolding wellFormed_def e by auto
  show ?case
  proof (cases "k' = k")
    case True
    have "\<And>r. r \<in> set (getAll store) \<Longrightarrow> user_id r \<noteq> k"
      using wf fresh True unfolding wellFormed_def list_all_iff getAll_def by force
    then have "map (\<lambda>r. if user_id r = k then v else r) (getAll store) = getAll store"
      by (simp add: map_idI)
    then show ?thesis using True id by (simp add: e getAll_def)
  next
    case False
    then have "k \<in> fst ` set store" using Cons.prems(2) by (auto simp: e)
    then show ?thesis using False id Cons.IH[OF wf] by (simp add: e getAll_def)
  qed
qed

lemma keys_mapSet: "set (map fst (mapSet store k v)) = insert k (set (map fst store))"
proof (induction store)
  case Nil
  show ?case by simp
next
  case (Cons e store)
  obtain k' r' where e: "e = (k', r')" by (cases e)
  show ?case
  proof (cases "k' = k")
    case True
    then show ?thesis by (simp add: e)
  next
    case False
    have "set (map fst (mapSet (e # store) k v)) = insert k' (set (map fst (mapSet store k v)))"
      using False by (simp add: e)
    also have "\<dots> = insert k' (insert k (set (map fst store)))"
      by (simp only: Cons.IH)
    also have "\<dots> = insert k (set (map fst (e # store)))"
      by (simp add: e insert_commute)
    finally show ?thesis .
  qed
qed

lemma distinct_mapSet: "distinct (map fst store) \<Longrightarrow> distinct (map fst (mapSet store k v))"
proof (induction store)
  case Nil
  show ?case by simp
next
  case (Cons e store)
  obtain k' r' where e: "e = (k', r')" by (cases e)
  have d: "distinct (map fst store)" and fresh: "k' \<notin> set (map fst store)"
    using Cons.prems by (simp_all add: e)
  show ?case
  proof (cases "k' = k")
    case True
    then show ?thesis using Cons.prems by (simp add: e)
  next
    case False
    have "k' \<notin> set (map fst (mapSet store k v))"
      using fresh False by (simp only: keys_mapSet) simp
    then show ?thesis using False Cons.IH[OF d] by (simp add: e)
  qed
qed

lemma ids_mapSet:
  "list_all (\<lambda>(k, r). user_id r = k) store \<Longrightarrow> user_id v = k \<Longrightarrow>
   list_all (\<lambda>(k, r). user_id r = k) (mapSet store k v)"
  by (induction store) auto

lemma wellFormed_mapSet:
  "wellFormed store \<Longrightarrow> user_id v = k \<Longrightarrow> wellFormed (mapSet store k v)"
  unfolding wellFormed_def by (simp add: distinct_mapSet ids_mapSet)

lemma find_map_same:
  assumes "List.find P xs = Some u" "\<And>x. x \<in> set xs \<Longrightarrow> P (g x) = P x"
  shows "List.find P (map g xs) = Some (g u)"
  using assms by (induction xs) (auto split: if_splits)

lemma find_map_none:
  assumes "List.find P xs = None" "\<And>x. x \<in> set xs \<Longrightarrow> P (g x) = P x"
  shows "List.find P (map g xs) = None"
  using assms by (induction xs) (auto split: if_splits)

lemma find_member: "List.find P xs = Some u \<Longrightarrow> u \<in> set xs \<and> P u"
  by (induction xs) (auto split: if_splits)

lemma findUser_member: "findUser store name = Some u \<Longrightarrow> u \<in> set (getAll store)"
  unfolding findUser_def findByUsername_def findByEmail_def
  by (auto split: option.splits dest: find_member)

lemma findUser_mapSet:
  assumes wf: "wellFormed store" and found: "findUser store name = Some u"
    and v: "username v = username u" "email v = email u"
  shows "findUser (mapSet store (user_id u) v) name = Some v"
proof -
  let ?k = "user_id u"
  let ?g = "\<lambda>r. if user_id r = ?k then v else r"
  have mem: "u \<in> set (getAll store)" using found by (rule findUser_member)
  have get: "getById store ?k = Some u" using wf mem by (rule wellFormed_getById)
  then have key: "?k \<in> fst ` set store"
    unfolding getById_def by (auto dest: map_of_SomeD intro: rev_image_eqI)
  have all: "getAll (mapSet store ?k v) = map ?g (getAll store)"
    using wf key by (rule getAll_mapSet)
  have same: "x = u" if "x \<in> set (getAll store)" "user_id x = ?k" for x
    using wellFormed_getById[OF wf that(1)] get that(2) by (metis option.inject)
  have gu: "?g u = v" by simp
  have pu: "toLowerCase (username (?g x)) = toLowerCase name \<longleftrightarrow> toLowerCase (username x) = toLowerCase name"
    if "x \<in> set (getAll store)" for x
  proof (cases "user_id x = ?k")
    case True
    then have "x = u" using that by (rule same[rotated])
    then show ?thesis using v by simp
  next
    case False
    then show ?thesis by simp
  qed
  have pe: "toLowerCase (email (?g x)) = toLowerCase name \<longleftrightarrow> toLowerCase (email x) = toLowerCase name"
    if "x \<in> set (getAll store)" for x
  proof (cases "user_id x = ?k")
    case True
    then have "x = u" using that by (rule same[rotated])
    then show ?thesis using v by simp
  next
    case False
    then show ?thesis by simp
  qed
  show ?thesis
  proof (cases "findByUsername store name")
    case (Some w)
    then have "w = u" using found by (simp add: findUser_def)
    then have "List.find (\<lambda>user. toLowerCase (username user) = toLowerCase name) (getAll store) = Some u"
      using Some by (simp add: findByUsername_def)
    from find_map_same[OF this, of ?g] pu
    have "findByUsername (mapSet store ?k v) name = Some v"
      unfolding findByUsername_def all by simp
    then show ?thesis by (simp add: findUser_def)
  next
    case None
    then have e: "List.find (\<lambda>user. toLowerCase (email user) = toLowerCase name) (getAll store) = Some u"
      using found by (simp add: findUser_def findByEmail_def)
    have n: "List.find (\<lambda>user. toLowerCase (username user) = toLowerCase name) (getAll store) = None"
      using None by (simp add: findByUsername_def)
    from find_map_none[OF n, of ?g] pu
    have 1: "findByUsername (mapSet store ?k v) name = None"
      unfolding findByUsername_def all by simp
    from find_map_same[OF e, of ?g] pe
    have 2: "findByEmail (mapSet store ?k v) name = Some v"
      unfolding findByEmail_def all by simp
    show ?thesis using 1 2 by (simp add: findUser_def)
  qed
qed

lemma update_found:
  "getById store k = Some r \<Longrightarrow> update store k f = (Some (f r), mapSet store k (f r))"
  by (simp add: update_def Let_def)

section \<open>Login\<close>

lemma update_mapSet:
  "update (mapSet store k v) k f = (Some (f v), mapSet store k (f v))"
  by (simp add: update_def Let_def getById_mapSet_same mapSet_mapSet)

lemma found_getById:
  "wellFormed store \<Longrightarrow> findUser store name = Some user \<Longrightarrow>
   getById store (user_id user) = Some user"
  by (rule wellFormed_getById) (auto dest: findUser_member)

lemma userLogin_blocked:
  assumes "loginSchema body" "findUser store (login_username body) = Some user"
    "status user = Bloqueado" "lastLoginAttempt user = Some t"
    "blockCheckNow clock - t < 30 * 60 * 1000"
  shows "userLogin rt clock body store = (Inl ACCOUNT_BLOCKED, store)"
  using assms by (simp add: userLogin_def Let_def)

lemma userLogin_pending:
  assumes "loginSchema body" "findUser store (login_username body) = Some user"
    "status user = Pendente"
  shows "userLogin rt clock body store = (Inl ACCOUNT_PENDING, store)"
  using assms by (simp add: userLogin_def Let_def)

lemma userLogin_wrong_password:
  assumes wf: "wellFormed store" and schema: "loginSchema body"
    and found: "findUser store (login_username body) = Some user"
    and st: "status user \<noteq> Bloqueado" "status user \<noteq> Pendente"
    and wrong: "\<not> comparePassword rt (login_password body) (passwordHash user)"
  shows "userLogin rt clock body store =
      (if loginAttempts user + 1 \<ge> 3
       then (Inl ACCOUNT_BLOCKED,
             mapSet store (user_id user)
               (user\<lparr>loginAttempts := loginAttempts user + 1,
                      lastLoginAttempt := Some (failedNow clock), status := Bloqueado\<rparr>))
       else (Inl INVALID_CREDENTIALS,
             mapSet store (user_id user)
               (user\<lparr>loginAttempts := loginAttempts user + 1,
                      lastLoginAttempt := Some (failedNow clock)\<rparr>)))"
proof -
  have get: "getById store (user_id user) = Some user"
    using wf found by (rule found_getById)
  show ?thesis
    using schema found st wrong
    by (simp add: userLogin_def Let_def update_found[OF get])
qed

lemma userLogin_unblock_wrong_password:
  assumes wf: "wellFormed store" and schema: "loginSchema body"
    and found: "findUser store (login_username body) = Some user"
    and st: "status user = Bloqueado"
    and late: "\<not> blockCheckNow clock - (case lastLoginAttempt user of Some t \<Rightarrow> t | None \<Rightarrow> 0)
                  < 30 * 60 * 1000"
    and wrong: "\<not> comparePassword rt (login_password body) (passwordHash user)"
  shows "userLogin rt clock body store =
      (if loginAttempts user + 1 \<ge> 3
       then (Inl ACCOUNT_BLOCKED,
             mapSet store (user_id user)
               (user\<lparr>loginAttempts := loginAttempts user + 1,
                      lastLoginAttempt := Some (failedNow clock), status := Bloqueado\<rparr>))
       else (Inl INVALID_CREDENTIALS,
             mapSet store (user_id user)
               (user\<lparr>status := Ativo, loginAttempts := loginAttempts user + 1,
                      lastLoginAttempt := Some (failedNow clock)\<rparr>)))"
proof -
  have get: "getById store (user_id user) = Some user"
    using wf found by (rule found_getById)
  show ?thesis
    using schema found st late wrong
    by (simp add: userLogin_def Let_def update_found[OF get] update_mapSet)
qed

lemma userLogin_correct_password:
  assumes wf: "wellFormed store" and schema: "loginSchema body"
    and found: "findUser store (login_username body) = Some user"
    and st: "status user \<noteq> Pendente"
    and late: "status user = Bloqueado \<longrightarrow>
       \<not> blockCheckNow clock - (case lastLoginAttempt user of Some t \<Rightarrow> t | None \<Rightarrow> 0)
           < 30 * 60 * 1000"
    and right: "comparePassword rt (login_password body) (passwordHash user)"
  shows "userLogin rt clock body store =
      (Inr \<lparr>out_id = user_id user, out_username = username user, out_email = email user,
            out_profile = profile user,
            out_token = generateToken rt (tokenIatNow clock) (tokenExpNow clock)
              \<lparr>claim_id = user_id user, claim_username = username user,
               claim_profile = profileName (profile user)\<rparr>\<rparr>,
       mapSet store (user_id user)
         (user\<lparr>status := (if status user = Bloqueado then Ativo else status user),
                loginAttempts := 0, lastLoginAttempt := None\<rparr>))"
proof -
  have get: "getById store (user_id user) = Some user"
    using wf found by (rule found_getById)
  show ?thesis
    using schema found st late right
    by (simp add: userLogin_def Let_def update_found[OF get] update_mapSet)
qed

text \<open>A login that returns a response went through the success branch.\<close>

lemma userLogin_Inr:
  assumes found: "findUser store (login_username body) = Some user"
    and ok: "fst (userLogin rt clock body store) = Inr response"
  shows "loginSchema body \<and> status user \<noteq> Pendente \<and>
         (status user = Bloqueado \<longrightarrow>
            \<not> blockCheckNow clock - (case lastLoginAttempt user of Some t \<Rightarrow> t | None \<Rightarrow> 0)
                < 30 * 60 * 1000) \<and>
         comparePassword rt (login_password body) (passwordHash user)"
  using assms by (auto simp: userLogin_def Let_def split: if_splits)

section \<open>The sample data\<close>

lemma alice_fields:
  "user_id alice = aliceId" "username alice = ''alice''"
  "email alice = ''alice@example.com''"
  "passwordHash alice = ''b1a7a115a15f4430b65f2a41696f27b94444109891d0498ad324f70274e1ca33''"
  "profile alice = Iniciante" "avatar alice = None"
  "status alice = Ativo" "loginAttempts alice = 0" "lastLoginAttempt alice = None"
  "dateCreated alice = 1700000000000" "dateModified alice = 1700000000000"
  by (simp_all add: alice_def)

lemma lockedAlice_fields:
  "user_id lockedAlice = aliceId" "username lockedAlice = ''alice''"
  "email lockedAlice = ''alice@example.com''"
  "passwordHash lockedAlice = passwordHash alice"
  "profile lockedAlice = Iniciante"
  "status lockedAlice = Bloqueado" "loginAttempts lockedAlice = 3"
  "lastLoginAttempt lockedAlice = Some lockedSince"
  "dateModified lockedAlice = dateModified alice"
  by (simp_all add: lockedAlice_def alice_def)

lemma pendingAlice_fields:
  "user_id pendingAlice = aliceId" "username pendingAlice = ''alice''"
  "email pendingAlice = ''alice@example.com''"
  "passwordHash pendingAlice = passwordHash alice"
  "status pendingAlice = Pendente"
  by (simp_all add: pendingAlice_def alice_def)

lemma bob_fields:
  "user_id bob = bobId" "username bob = ''bob_42''" "email bob = ''bob@example.com''"
  by (simp_all add: bob_def)

lemma ids_differ: "aliceId \<noteq> bobId" "bobId \<noteq> aliceId"
  by (simp_all add: aliceId_def bobId_def)

lemma wellFormed_two: "user_id a = aliceId \<Longrightarrow> wellFormed [(aliceId, a), (bobId, bob)]"
  by (simp add: wellFormed_def bob_fields ids_differ)

lemma find_by_name:
  "username a = ''alice'' \<Longrightarrow> findUser [(aliceId, a), (bobId, bob)] ''alice'' = Some a"
  by (simp add: findUser_def findByUsername_def getAll_def)

lemma find_by_mail:
  "username a = ''alice'' \<Longrightarrow> email a = ''alice@example.com'' \<Longrightarrow>
   findUser [(aliceId, a), (bobId, bob)] ''Alice@Example.com'' = Some a"
  by (simp add: findUser_def findByUsername_def findByEmail_def getAll_def bob_fields
      toLowerCase_def toLowerChar_def)

lemma sample_passwords:
  "\<not> comparePassword sampleRuntime ''Wrong#123'' (passwordHash alice)"
  "comparePassword sampleRuntime ''Secret#123'' (passwordHash alice)"
  by (simp_all add: comparePassword_def hashPassword_def sampleRuntime_def alice_fields)

lemma sample_logins:
  "loginSchema wrongLogin" "login_username wrongLogin = ''alice''"
  "login_password wrongLogin = ''Wrong#123''"
  "loginSchema rightLogin" "login_username rightLogin = ''Alice@Example.com''"
  "login_password rightLogin = ''Secret#123''"
  by (simp_all add: loginSchema_def wrongLogin_def rightLogin_def)

lemma sampleClock_fields:
  "blockCheckNow sampleClock = sampleIssuedAt" "failedNow sampleClock = sampleIssuedAt"
  "tokenIatNow sampleClock = sampleIssuedAt" "tokenExpNow sampleClock = sampleIssuedAt"
  by (simp_all add: sampleClock_def)

lemma mapSet_first: "mapSet ((k, a) # rest) k v = (k, v) # rest"
  by simp

section \<open>Claims about login\<close>

subsection \<open>Claim C6\<close>

text \<open>
  C6: when the login name resolves to an account with status \<open>bloqueado\<close> whose
  \<open>lastLoginAttempt\<close> is less than 30 minutes before the clock reading, a login with any
  password that passes the request validation fails with \<open>ACCOUNT_BLOCKED\<close> and leaves
  the store, hence the account record and its \<open>loginAttempts\<close>, unchanged.
\<close>

theorem locked_account_rejects_login:
  assumes "loginSchema body"
    and "findUser store (login_username body) = Some user"
    and "status user = Bloqueado"
    and "lastLoginAttempt user = Some t"
    and "blockCheckNow clock - t < 30 * 60 * 1000"
  shows "userLogin rt clock body store = (Inl ACCOUNT_BLOCKED, store)"
  using assms by (rule userLogin_blocked)

theorem locked_account_rejects_login_witness:
  "loginSchema rightLogin \<and>
   findUser lockedStore (login_username rightLogin) = Some lockedAlice \<and>
   status lockedAlice = Bloqueado \<and>
   lastLoginAttempt lockedAlice = Some lockedSince \<and>
   blockCheckNow (sampleClock\<lparr>blockCheckNow := lockedSince + 600000\<rparr>) - lockedSince
     < 30 * 60 * 1000 \<and>
   userLogin sampleRuntime (sampleClock\<lparr>blockCheckNow := lockedSince + 600000\<rparr>)
     rightLogin lockedStore = (Inl ACCOUNT_BLOCKED, lockedStore)"
proof -
  have found: "findUser lockedStore (login_username rightLogin) = Some lockedAlice"
    by (simp add: lockedStore_def sample_logins find_by_mail lockedAlice_fields)
  have early: "blockCheckNow (sampleClock\<lparr>blockCheckNow := lockedSince + 600000\<rparr>) - lockedSince
     < 30 * 60 * 1000"
    by simp
  note locked_account_rejects_login
    [OF sample_logins(4) found lockedAlice_fields(6) lockedAlice_fields(8) early,
     of sampleRuntime]
  then show ?thesis
    using found early by (simp add: sample_logins lockedAlice_fields)
qed

subsection \<open>Claim C7\<close>

text \<open>
  C7: when the login name resolves to an account with status \<open>pendente\<close>, every login
  that passes the request validation fails with \<open>ACCOUNT_PENDING\<close>, whatever the password
  and whatever the hash function: the result does not depend on the credential check. The
  store is left unchanged.
\<close>

theorem pending_account_rejects_login:
  assumes "loginSchema body"
    and "findUser store (login_username body) = Some user"
    and "status user = Pendente"
  shows "userLogin rt clock body store = (Inl ACCOUNT_PENDING, store)"
  using assms by (rule userLogin_pending)

theorem pending_account_rejects_login_witness:
  "loginSchema rightLogin \<and>
   findUser pendingStore (login_username rightLogin) = Some pendingAlice \<and>
   status pendingAlice = Pendente \<and>
   comparePassword sampleRuntime (login_password rightLogin) (passwordHash pendingAlice) \<and>
   userLogin sampleRuntime sampleClock rightLogin pendingStore
     = (Inl ACCOUNT_PENDING, pendingStore)"
proof -
  have found: "findUser pendingStore (login_username rightLogin) = Some pendingAlice"
    by (simp add: pendingStore_def sample_logins find_by_mail pendingAlice_fields)
  note pending_account_rejects_login
    [OF sample_logins(4) found pendingAlice_fields(5), of sampleRuntime sampleClock]
  then show ?thesis
    using found by (simp add: sample_logins pendingAlice_fields sample_passwords)
qed

subsection \<open>Claim C3\<close>

text \<open>
  C3: for an account with status \<open>ativo\<close> and \<open>loginAttempts = 0\<close>, three consecutive
  logins with a wrong password (each under a name that resolves to the account) fail with
  \<open>INVALID_CREDENTIALS\<close>, \<open>INVALID_CREDENTIALS\<close> and \<open>ACCOUNT_BLOCKED\<close>, and leave the
  account with status \<open>bloqueado\<close> (and three counted attempts).
\<close>

theorem three_wrong_passwords_lock:
  assumes wf: "wellFormed store"
    and schema: "loginSchema b1" "loginSchema b2" "loginSchema b3"
    and found: "findUser store (login_username b1) = Some user"
      "findUser store (login_username b2) = Some user"
      "findUser store (login_username b3) = Some user"
    and active: "status user = Ativo" "loginAttempts user = 0"
    and wrong: "\<not> comparePassword rt (login_password b1) (passwordHash user)"
      "\<not> comparePassword rt (login_password b2) (passwordHash user)"
      "\<not> comparePassword rt (login_password b3) (passwordHash user)"
  shows "consecutiveLogins rt [(c1, b1), (c2, b2), (c3, b3)] store =
           ([Inl INVALID_CREDENTIALS, Inl INVALID_CREDENTIALS, Inl ACCOUNT_BLOCKED],
            mapSet store (user_id user)
              (user\<lparr>loginAttempts := 3, lastLoginAttempt := Some (failedNow c3),
                     status := Bloqueado\<rparr>)) \<and>
         getById (snd (consecutiveLogins rt [(c1, b1), (c2, b2), (c3, b3)] store)) (user_id user)
           = Some (user\<lparr>loginAttempts := 3, lastLoginAttempt := Some (failedNow c3),
                          status := Bloqueado\<rparr>)"
proof -
  let ?k = "user_id user"
  let ?u1 = "user\<lparr>loginAttempts := 1, lastLoginAttempt := Some (failedNow c1)\<rparr>"
  let ?u2 = "user\<lparr>loginAttempts := 2, lastLoginAttempt := Some (failedNow c2)\<rparr>"
  let ?u3 = "user\<lparr>loginAttempts := 3, lastLoginAttempt := Some (failedNow c3),
                   status := Bloqueado\<rparr>"
  let ?s1 = "mapSet store ?k ?u1" and ?s2 = "mapSet store ?k ?u2" and ?s3 = "mapSet store ?k ?u3"
  have step1: "userLogin rt c1 b1 store = (Inl INVALID_CREDENTIALS, ?s1)"
    using userLogin_wrong_password[OF wf schema(1) found(1) _ _ wrong(1), of c1] active
    by simp
  have wf1: "wellFormed ?s1" using wf by (rule wellFormed_mapSet) simp
  have found1: "findUser ?s1 (login_username b2) = Some ?u1"
    using wf found(2) by (rule findUser_mapSet) simp_all
  have step2: "userLogin rt c2 b2 ?s1 = (Inl INVALID_CREDENTIALS, ?s2)"
    using userLogin_wrong_password[OF wf1 schema(2) found1 _ _, of rt c2] active wrong(2)
    by (simp add: mapSet_mapSet)
  have wf2: "wellFormed ?s2" using wf by (rule wellFormed_mapSet) simp
  have found2: "findUser ?s2 (login_username b3) = Some ?u2"
    using wf found(3) by (rule findUser_mapSet) simp_all
  have step3: "userLogin rt c3 b3 ?s2 = (Inl ACCOUNT_BLOCKED, ?s3)"
    using userLogin_wrong_password[OF wf2 schema(3) found2 _ _, of rt c3] active wrong(3)
    by (simp add: mapSet_mapSet)
  have run: "consecutiveLogins rt [(c1, b1), (c2, b2), (c3, b3)] store =
      ([Inl INVALID_CREDENTIALS, Inl INVALID_CREDENTIALS, Inl ACCOUNT_BLOCKED], ?s3)"
    by (simp add: step1 step2 step3)
  show ?thesis by (simp only: run snd_conv getById_mapSet_same)
qed

theorem three_wrong_passwords_lock_witness:
  "wellFormed sampleStore \<and> loginSchema wrongLogin \<and>
   findUser sampleStore (login_username wrongLogin) = Some alice \<and>
   status alice = Ativo \<and> loginAttempts alice = 0 \<and>
   \<not> comparePassword sampleRuntime (login_password wrongLogin) (passwordHash alice) \<and>
   consecutiveLogins sampleRuntime
     [(sampleClock, wrongLogin), (sampleClock, wrongLogin), (sampleClock, wrongLogin)]
     sampleStore
     = ([Inl INVALID_CREDENTIALS, Inl INVALID_CREDENTIALS, Inl ACCOUNT_BLOCKED],
        [(aliceId, alice\<lparr>loginAttempts := 3, lastLoginAttempt := Some sampleIssuedAt,
                          status := Bloqueado\<rparr>),
         (bobId, bob)]) \<and>
   getById (snd (consecutiveLogins sampleRuntime
     [(sampleClock, wrongLogin), (sampleClock, wrongLogin), (sampleClock, wrongLogin)]
     sampleStore)) aliceId
     = Some (alice\<lparr>loginAttempts := 3, lastLoginAttempt := Some sampleIssuedAt,
                    status := Bloqueado\<rparr>)"
proof -
  have wf: "wellFormed sampleStore"
    unfolding sampleStore_def by (rule wellFormed_two) (rule alice_fields)
  have found: "findUser sampleStore (login_username wrongLogin) = Some alice"
    by (simp add: sampleStore_def sample_logins find_by_name alice_fields)
  have wrong: "\<not> comparePassword sampleRuntime (login_password wrongLogin) (passwordHash alice)"
    by (simp add: sample_logins sample_passwords)
  note res = three_wrong_passwords_lock
    [OF wf sample_logins(1) sample_logins(1) sample_logins(1) found found found
        alice_fields(7) alice_fields(8) wrong wrong wrong,
     of sampleClock sampleClock sampleClock]
  have store: "mapSet sampleStore (user_id alice)
      (alice\<lparr>loginAttempts := 3, lastLoginAttempt := Some (failedNow sampleClock),
             status := Bloqueado\<rparr>)
      = [(aliceId, alice\<lparr>loginAttempts := 3, lastLoginAttempt := Some sampleIssuedAt,
                          status := Bloqueado\<rparr>),
         (bobId, bob)]"
    by (simp add: sampleStore_def alice_fields sampleClock_fields)
  have run: "consecutiveLogins sampleRuntime
     [(sampleClock, wrongLogin), (sampleClock, wrongLogin), (sampleClock, wrongLogin)]
     sampleStore
     = ([Inl INVALID_CREDENTIALS, Inl INVALID_CREDENTIALS, Inl ACCOUNT_BLOCKED],
        [(aliceId, alice\<lparr>loginAttempts := 3, lastLoginAttempt := Some sampleIssuedAt,
                          status := Bloqueado\<rparr>),
         (bobId, bob)])"
    using res[THEN conjunct1] unfolding store .
  have get: "getById (snd (consecutiveLogins sampleRuntime
     [(sampleClock, wrongLogin), (sampleClock, wrongLogin), (sampleClock, wrongLogin)]
     sampleStore)) aliceId
     = Some (alice\<lparr>loginAttempts := 3, lastLoginAttempt := Some sampleIssuedAt,
                    status := Bloqueado\<rparr>)"
    using res[THEN conjunct2] unfolding alice_fields(1) sampleClock_fields .
  show ?thesis
    using wf sample_logins(1) found alice_fields(7) alice_fields(8) wrong run get
    by (intro conjI)
qed

subsection \<open>Claim C9\<close>

text \<open>
  C9: a validated login with the right password, under a name that resolves to an account
  that is not pending and, if it is blocked, was blocked 30 minutes ago or more, succeeds:
  it returns the public fields with the token issued for \<open>{id, username, profile}\<close> of
  the account, and the stored record afterwards is the one found with \<open>loginAttempts = 0\<close>
  and \<open>lastLoginAttempt\<close> cleared (and status \<open>ativo\<close> instead of \<open>bloqueado\<close> after the
  automatic unblocking), so that \<open>dateModified\<close> is unchanged. Conversely every login
  that returns a response is of this kind.
\<close>

theorem correct_password_login_succeeds:
  assumes wf: "wellFormed store"
    and found: "findUser store (login_username body) = Some user"
  shows "(loginSchema body \<and> status user \<noteq> Pendente \<and>
          (status user = Bloqueado \<longrightarrow>
             30 * 60 * 1000 \<le> blockCheckNow clock
                - (case lastLoginAttempt user of Some t \<Rightarrow> t | None \<Rightarrow> 0)) \<and>
          comparePassword rt (login_password body) (passwordHash user) \<longrightarrow>
            userLogin rt clock body store =
              (Inr \<lparr>out_id = user_id user, out_username = username user,
                    out_email = email user, out_profile = profile user,
                    out_token = generateToken rt (tokenIatNow clock) (tokenExpNow clock)
                      \<lparr>claim_id = user_id user, claim_username = username user,
                       claim_profile = profileName (profile user)\<rparr>\<rparr>,
               mapSet store (user_id user)
                 (user\<lparr>status := (if status user = Bloqueado then Ativo else status user),
                        loginAttempts := 0, lastLoginAttempt := None\<rparr>)) \<and>
            getById (snd (userLogin rt clock body store)) (user_id user) =
              Some (user\<lparr>status := (if status user = Bloqueado then Ativo else status user),
                          loginAttempts := 0, lastLoginAttempt := None\<rparr>) \<and>
            map_option loginAttempts (getById (snd (userLogin rt clock body store)) (user_id user))
              = Some 0 \<and>
            map_option lastLoginAttempt
                (getById (snd (userLogin rt clock body store)) (user_id user))
              = Some None \<and>
            map_option dateModified (getById (snd (userLogin rt clock body store)) (user_id user))
              = Some (dateModified user)) \<and>
         (\<forall>response store'. userLogin rt clock body store = (Inr response, store') \<longrightarrow>
            loginSchema body \<and> status user \<noteq> Pendente \<and>
            (status user = Bloqueado \<longrightarrow>
               30 * 60 * 1000 \<le> blockCheckNow clock
                  - (case lastLoginAttempt user of Some t \<Rightarrow> t | None \<Rightarrow> 0)) \<and>
            comparePassword rt (login_password body) (passwordHash user))"
proof (rule conjI)
  show "\<forall>response store'. userLogin rt clock body store = (Inr response, store') \<longrightarrow>
            loginSchema body \<and> status user \<noteq> Pendente \<and>
            (status user = Bloqueado \<longrightarrow>
               30 * 60 * 1000 \<le> blockCheckNow clock
                  - (case lastLoginAttempt user of Some t \<Rightarrow> t | None \<Rightarrow> 0)) \<and>
            comparePassword rt (login_password body) (passwordHash user)"
  proof (intro allI impI)
    fix response store'
    assume "userLogin rt clock body store = (Inr response, store')"
    then have "fst (userLogin rt clock body store) = Inr response" by simp
    from userLogin_Inr[OF found this]
    show "loginSchema body \<and> status user \<noteq> Pendente \<and>
            (status user = Bloqueado \<longrightarrow>
               30 * 60 * 1000 \<le> blockCheckNow clock
                  - (case lastLoginAttempt user of Some t \<Rightarrow> t | None \<Rightarrow> 0)) \<and>
            comparePassword rt (login_password body) (passwordHash user)"
      by (simp add: not_less)
  qed
next
  show "loginSchema body \<and> status user \<noteq> Pendente \<and>
          (status user = Bloqueado \<longrightarrow>
             30 * 60 * 1000 \<le> blockCheckNow clock
                - (case lastLoginAttempt user of Some t \<Rightarrow> t | None \<Rightarrow> 0)) \<and>
          comparePassword rt (login_password body) (passwordHash user) \<longrightarrow>
            userLogin rt clock body store =
              (Inr \<lparr>out_id = user_id user, out_username = username user,
                    out_email = email user, out_profile = profile user,
                    out_token = generateToken rt (tokenIatNow clock) (tokenExpNow clock)
                      \<lparr>claim_id = user_id user, claim_username = username user,
                       claim_profile = profileName (profile user)\<rparr>\<rparr>,
               mapSet store (user_id user)
                 (user\<lparr>status := (if status user = Bloqueado then Ativo else status user),
                        loginAttempts := 0, lastLoginAttempt := None\<rparr>)) \<and>
            getById (snd (userLogin rt clock body store)) (user_id user) =
              Some (user\<lparr>status := (if status user = Bloqueado then Ativo else status user),
                          loginAttempts := 0, lastLoginAttempt := None\<rparr>) \<and>
            map_option loginAttempts (getById (snd (userLogin rt clock body store)) (user_id user))
              = Some 0 \<and>
            map_option lastLoginAttempt
                (getById (snd (userLogin rt clock body store)) (user_id user))
              = Some None \<and>
            map_option dateModified (getById (snd (userLogin rt clock body store)) (user_id user))
              = Some (dateModified user)"
  proof (rule impI)
    assume h: "loginSchema body \<and> status user \<noteq> Pendente \<and>
          (status user = Bloqueado \<longrightarrow>
             30 * 60 * 1000 \<le> blockCheckNow clock
                - (case lastLoginAttempt user of Some t \<Rightarrow> t | None \<Rightarrow> 0)) \<and>
          comparePassword rt (login_password body) (passwordHash user)"
    then have schema: "loginSchema body" and st: "status user \<noteq> Pendente"
      and right: "comparePassword rt (login_password body) (passwordHash user)"
      by simp_all
    have late: "status user = Bloqueado \<longrightarrow>
       \<not> blockCheckNow clock - (case lastLoginAttempt user of Some t \<Rightarrow> t | None \<Rightarrow> 0)
           < 30 * 60 * 1000"
      using h by (simp add: not_less)
    note eq = userLogin_correct_password[OF wf schema found st late right]
    have get: "getById (snd (userLogin rt clock body store)) (user_id user) =
              Some (user\<lparr>status := (if status user = Bloqueado then Ativo else status user),
                          loginAttempts := 0, lastLoginAttempt := None\<rparr>)"
      unfolding eq snd_conv by (rule getById_mapSet_same)
    show "userLogin rt clock body store =
              (Inr \<lparr>out_id = user_id user, out_username = username user,
                    out_email = email user, out_profile = profile user,
                    out_token = generateToken rt (tokenIatNow clock) (tokenExpNow clock)
                      \<lparr>claim_id = user_id user, claim_username = username user,
                       claim_profile = profileName (profile user)\<rparr>\<rparr>,
               mapSet store (user_id user)
                 (user\<lparr>status := (if status user = Bloqueado then Ativo else status user),
                        loginAttempts := 0, lastLoginAttempt := None\<rparr>)) \<and>
            getById (snd (userLogin rt clock body store)) (user_id user) =
              Some (user\<lparr>status := (if status user = Bloqueado then Ativo else status user),
                          loginAttempts := 0, lastLoginAttempt := None\<rparr>) \<and>
            map_option loginAttempts (getById (snd (userLogin rt clock body store)) (user_id user))
              = Some 0 \<and>
            map_option lastLoginAttempt
                (getById (snd (userLogin rt clock body store)) (user_id user))
              = Some None \<and>
            map_option dateModified (getById (snd (userLogin rt clock body store)) (user_id user))
              = Some (dateModified user)"
    proof (intro conjI)
      show "userLogin rt clock body store =
              (Inr \<lparr>out_id = user_id user, out_username = username user,
                    out_email = email user, out_profile = profile user,
                    out_token = generateToken rt (tokenIatNow clock) (tokenExpNow clock)
                      \<lparr>claim_id = user_id user, claim_username = username user,
                       claim_profile = profileName (profile user)\<rparr>\<rparr>,
               mapSet store (user_id user)
                 (user\<lparr>status := (if status user = Bloqueado then Ativo else status user),
                        loginAttempts := 0, lastLoginAttempt := None\<rparr>))"
        by (rule eq)
      show "getById (snd (userLogin rt clock body store)) (user_id user) =
              Some (user\<lparr>status := (if status user = Bloqueado then Ativo else status user),
                          loginAttempts := 0, lastLoginAttempt := None\<rparr>)"
        by (rule get)
      show "map_option loginAttempts
              (getById (snd (userLogin rt clock body store)) (user_id user)) = Some 0"
        unfolding get by simp
      show "map_option lastLoginAttempt
              (getById (snd (userLogin rt clock body store)) (user_id user)) = Some None"
        unfolding get by simp
      show "map_option dateModified
              (getById (snd (userLogin rt clock body store)) (user_id user))
              = Some (dateModified user)"
        unfolding get by simp
    qed
  qed
qed

theorem correct_password_login_succeeds_witness:
  "wellFormed sampleStore \<and>
   findUser sampleStore (login_username rightLogin) = Some alice \<and>
   loginSchema rightLogin \<and> status alice = Ativo \<and>
   comparePassword sampleRuntime (login_password rightLogin) (passwordHash alice) \<and>
   userLogin sampleRuntime sampleClock rightLogin sampleStore
     = (Inr \<lparr>out_id = aliceId, out_username = ''alice'', out_email = ''alice@example.com'',
              out_profile = Iniciante,
              out_token = sampleHeader @ ''.'' @ sampleBody @ ''.'' @ sampleSignature\<rparr>,
        sampleStore) \<and>
   wellFormed lockedStore \<and>
   findUser lockedStore (login_username rightLogin) = Some lockedAlice \<and>
   status lockedAlice = Bloqueado \<and> lastLoginAttempt lockedAlice = Some lockedSince \<and>
   30 * 60 * 1000 \<le> blockCheckNow sampleClock - lockedSince \<and>
   comparePassword sampleRuntime (login_password rightLogin) (passwordHash lockedAlice) \<and>
   userLogin sampleRuntime sampleClock rightLogin lockedStore
     = (Inr \<lparr>out_id = aliceId, out_username = ''alice'', out_email = ''alice@example.com'',
              out_profile = Iniciante,
              out_token = sampleHeader @ ''.'' @ sampleBody @ ''.'' @ sampleSignature\<rparr>,
        sampleStore) \<and>
   sampleHeader @ ''.'' @ sampleBody @ ''.'' @ sampleSignature =
     generateToken sampleRuntime (tokenIatNow sampleClock) (tokenExpNow sampleClock)
       \<lparr>claim_id = user_id lockedAlice, claim_username = username lockedAlice,
        claim_profile = profileName (profile lockedAlice)\<rparr> \<and>
   getById sampleStore (user_id lockedAlice) = Some alice \<and>
   loginAttempts alice = 0 \<and> lastLoginAttempt alice = None \<and>
   dateModified alice = dateModified lockedAlice"
proof -
  have wfA: "wellFormed sampleStore"
    unfolding sampleStore_def by (rule wellFormed_two) (rule alice_fields)
  have foundA: "findUser sampleStore (login_username rightLogin) = Some alice"
    by (simp add: sampleStore_def sample_logins find_by_mail alice_fields)
  have rightA: "comparePassword sampleRuntime (login_password rightLogin) (passwordHash alice)"
    by (simp add: sample_logins sample_passwords)
  have wfL: "wellFormed lockedStore"
    unfolding lockedStore_def by (rule wellFormed_two) (rule lockedAlice_fields)
  have foundL: "findUser lockedStore (login_username rightLogin) = Some lockedAlice"
    by (simp add: lockedStore_def sample_logins find_by_mail lockedAlice_fields)
  have late: "30 * 60 * 1000 \<le> blockCheckNow sampleClock - lockedSince"
    by (simp add: sampleClock_fields sampleIssuedAt_def lockedSince_def)
  have rightL: "comparePassword sampleRuntime (login_password rightLogin)
      (passwordHash lockedAlice)"
    by (simp add: sample_logins lockedAlice_fields sample_passwords)
  have token: "generateToken sampleRuntime (tokenIatNow sampleClock) (tokenExpNow sampleClock)
       \<lparr>claim_id = aliceId, claim_username = ''alice'', claim_profile = ''iniciante''\<rparr>
      = sampleHeader @ ''.'' @ sampleBody @ ''.'' @ sampleSignature"
    using sample_token by (simp add: sampleClock_fields sampleClaims_def)
  have sameA: "alice\<lparr>status := Ativo, loginAttempts := 0, lastLoginAttempt := None\<rparr> = alice"
    by (simp add: alice_def)
  have sameL: "lockedAlice\<lparr>status := Ativo, loginAttempts := 0, lastLoginAttempt := None\<rparr>
      = alice"
    by (simp add: lockedAlice_def alice_def)
  have storeA: "mapSet sampleStore aliceId alice = sampleStore"
    by (simp add: sampleStore_def)
  have storeL: "mapSet lockedStore aliceId alice = sampleStore"
    by (simp add: lockedStore_def sampleStore_def)
  have condA: "loginSchema rightLogin \<and> status alice \<noteq> Pendente \<and>
      (status alice = Bloqueado \<longrightarrow>
         30 * 60 * 1000 \<le> blockCheckNow sampleClock
            - (case lastLoginAttempt alice of Some t \<Rightarrow> t | None \<Rightarrow> 0)) \<and>
      comparePassword sampleRuntime (login_password rightLogin) (passwordHash alice)"
    using rightA by (simp add: sample_logins alice_fields)
  have condL: "loginSchema rightLogin \<and> status lockedAlice \<noteq> Pendente \<and>
      (status lockedAlice = Bloqueado \<longrightarrow>
         30 * 60 * 1000 \<le> blockCheckNow sampleClock
            - (case lastLoginAttempt lockedAlice of Some t \<Rightarrow> t | None \<Rightarrow> 0)) \<and>
      comparePassword sampleRuntime (login_password rightLogin) (passwordHash lockedAlice)"
    using rightL late by (simp add: sample_logins lockedAlice_fields)
  note resA = correct_password_login_succeeds
    [OF wfA foundA, of sampleClock sampleRuntime, THEN conjunct1, rule_format, OF condA]
  note resL = correct_password_login_succeeds
    [OF wfL foundL, of sampleClock sampleRuntime, THEN conjunct1, rule_format, OF condL]
  have runA: "userLogin sampleRuntime sampleClock rightLogin sampleStore
     = (Inr \<lparr>out_id = aliceId, out_username = ''alice'', out_email = ''alice@example.com'',
              out_profile = Iniciante,
              out_token = sampleHeader @ ''.'' @ sampleBody @ ''.'' @ sampleSignature\<rparr>,
        sampleStore)"
    unfolding resA[THEN conjunct1]
    by (simp add: alice_fields token sameA storeA del: append.simps)
  have runL: "userLogin sampleRuntime sampleClock rightLogin lockedStore
     = (Inr \<lparr>out_id = aliceId, out_username = ''alice'', out_email = ''alice@example.com'',
              out_profile = Iniciante,
              out_token = sampleHeader @ ''.'' @ sampleBody @ ''.'' @ sampleSignature\<rparr>,
        sampleStore)"
    unfolding resL[THEN conjunct1]
    by (simp add: lockedAlice_fields(1-3,5,6) token sameL storeL del: append.simps)
  have tok: "sampleHeader @ ''.'' @ sampleBody @ ''.'' @ sampleSignature =
     generateToken sampleRuntime (tokenIatNow sampleClock) (tokenExpNow sampleClock)
       \<lparr>claim_id = user_id lockedAlice, claim_username = username lockedAlice,
        claim_profile = profileName (profile lockedAlice)\<rparr>"
    by (simp add: lockedAlice_fields(1-3,5) token del: append.simps)
  have getL: "getById sampleStore (user_id lockedAlice) = Some alice"
    by (simp add: getById_def sampleStore_def lockedAlice_fields)
  show ?thesis
    using wfA foundA sample_logins(4) alice_fields(7) rightA runA
      wfL foundL lockedAlice_fields(6) lockedAlice_fields(8) late rightL runL tok getL
      alice_fields(8) alice_fields(9) lockedAlice_fields(9)[symmetric]
    by (intro conjI)
qed

subsection \<open>Claim C1\<close>

text \<open>
  C1 says that a wrong password given to a locked account, 30 minutes or more after
  \<open>lastLoginAttempt\<close>, counts as the first failed attempt of an unlocked account and
  fails with \<open>INVALID_CREDENTIALS\<close>. The source unblocks the stored record (status
  \<open>ativo\<close>, \<open>loginAttempts = 0\<close>) but goes on with the record object it looked up before,
  whose \<open>loginAttempts\<close> is still the old count: with an old count of 2 or more the new
  count reaches 3, the account is blocked again and the login fails with
  \<open>ACCOUNT_BLOCKED\<close>.
\<close>

lemma unblocked_wrong_password_blocks_again:
  assumes "wellFormed store" "loginSchema body"
    and "findUser store (login_username body) = Some user"
    and "status user = Bloqueado" "lastLoginAttempt user = Some t"
    and "30 * 60 * 1000 \<le> blockCheckNow clock - t"
    and "\<not> comparePassword rt (login_password body) (passwordHash user)"
    and "2 \<le> loginAttempts user"
  shows "userLogin rt clock body store =
      (Inl ACCOUNT_BLOCKED,
       mapSet store (user_id user)
         (user\<lparr>loginAttempts := loginAttempts user + 1,
                lastLoginAttempt := Some (failedNow clock)\<rparr>))"
proof -
  have late: "\<not> blockCheckNow clock - (case lastLoginAttempt user of Some t \<Rightarrow> t | None \<Rightarrow> 0)
                  < 30 * 60 * 1000"
    using assms(5,6) by simp
  have same: "user\<lparr>loginAttempts := loginAttempts user + 1,
                    lastLoginAttempt := Some (failedNow clock), status := Bloqueado\<rparr>
      = user\<lparr>loginAttempts := loginAttempts user + 1,
              lastLoginAttempt := Some (failedNow clock)\<rparr>"
    using assms(4) by simp
  show ?thesis
    unfolding userLogin_unblock_wrong_password[OF assms(1-4) late assms(7)]
    using assms(8) by (simp add: same)
qed

text \<open>
  C1 at a concrete input: the first sample account, locked with three failed attempts 31
  minutes before the login, and a wrong password. The login fails with
  \<open>ACCOUNT_BLOCKED\<close>, and the account is left locked with four failed attempts, where C1
  says \<open>INVALID_CREDENTIALS\<close>, status \<open>ativo\<close> and one failed attempt.
\<close>

theorem unlock_then_wrong_password:
  "status lockedAlice = Bloqueado \<and> loginAttempts lockedAlice = 3 \<and>
   lastLoginAttempt lockedAlice = Some lockedSince \<and>
   30 * 60 * 1000 \<le> blockCheckNow sampleClock - lockedSince \<and>
   \<not> comparePassword sampleRuntime (login_password wrongLogin) (passwordHash lockedAlice) \<and>
   userLogin sampleRuntime sampleClock wrongLogin lockedStore
     = (Inl ACCOUNT_BLOCKED,
        [(aliceId, lockedAlice\<lparr>loginAttempts := 4, lastLoginAttempt := Some sampleIssuedAt\<rparr>),
         (bobId, bob)]) \<and>
   status (lockedAlice\<lparr>loginAttempts := 4, lastLoginAttempt := Some sampleIssuedAt\<rparr>)
     = Bloqueado"
proof -
  have wf: "wellFormed lockedStore"
    unfolding lockedStore_def by (rule wellFormed_two) (rule lockedAlice_fields)
  have found: "findUser lockedStore (login_username wrongLogin) = Some lockedAlice"
    by (simp add: lockedStore_def sample_logins find_by_name lockedAlice_fields)
  have late: "30 * 60 * 1000 \<le> blockCheckNow sampleClock - lockedSince"
    by (simp add: sampleClock_fields sampleIssuedAt_def lockedSince_def)
  have wrong: "\<not> comparePassword sampleRuntime (login_password wrongLogin)
      (passwordHash lockedAlice)"
    by (simp add: sample_logins lockedAlice_fields sample_passwords)
  have count: "2 \<le> loginAttempts lockedAlice" by (simp add: lockedAlice_fields)
  have run: "userLogin sampleRuntime sampleClock wrongLogin lockedStore
     = (Inl ACCOUNT_BLOCKED,
        [(aliceId, lockedAlice\<lparr>loginAttempts := 4, lastLoginAttempt := Some sampleIssuedAt\<rparr>),
         (bobId, bob)])"
    unfolding unblocked_wrong_password_blocks_again
      [OF wf sample_logins(1) found lockedAlice_fields(6) lockedAlice_fields(8) late wrong count]
    by (simp add: lockedStore_def lockedAlice_fields sampleClock_fields)
  show ?thesis
    using late wrong run by (simp add: lockedAlice_fields)
qed

section \<open>Registration and profile update\<close>

lemma find_member_not_None: "x \<in> set xs \<Longrightarrow> P x \<Longrightarrow> List.find P xs \<noteq> None"
  by (auto simp: find_None_iff)

lemma findByUsername_None:
  "\<forall>r \<in> set (getAll store). toLowerCase (username r) \<noteq> toLowerCase name \<Longrightarrow>
   findByUsername store name = None"
  by (simp add: findByUsername_def find_None_iff)

lemma findByEmail_None:
  "\<forall>r \<in> set (getAll store). toLowerCase (email r) \<noteq> toLowerCase mail \<Longrightarrow>
   findByEmail store mail = None"
  by (simp add: findByEmail_def find_None_iff)

lemma findByUsername_collision:
  "r \<in> set (getAll store) \<Longrightarrow> toLowerCase (username r) = toLowerCase name \<Longrightarrow>
   findByUsername store name \<noteq> None"
  unfolding findByUsername_def by (rule find_member_not_None)

lemma findByEmail_collision:
  "r \<in> set (getAll store) \<Longrightarrow> toLowerCase (email r) = toLowerCase mail \<Longrightarrow>
   findByEmail store mail \<noteq> None"
  unfolding findByEmail_def by (rule find_member_not_None)

lemma toLowerCase_Nil: "toLowerCase s = [] \<longleftrightarrow> s = []"
  by (simp add: toLowerCase_def)

lemma userUpdateProfile_duplicate_username:
  assumes "paramsSchema rt i" "updateSchema rt updateData" "getById store i = Some user"
    and "upd_username updateData = Some n" "n \<noteq> []" "n \<noteq> username user"
    and "findByUsername store n \<noteq> None"
  shows "userUpdateProfile rt now i updateData store = (Inl DUPLICATE_USERNAME, store)"
  using assms by (simp add: userUpdateProfile_def)

lemma userUpdateProfile_duplicate_email:
  assumes "paramsSchema rt i" "updateSchema rt updateData" "getById store i = Some user"
    and "\<forall>n. upd_username updateData = Some n \<longrightarrow>
           n = username user \<or> findByUsername store n = None"
    and "upd_email updateData = Some m" "m \<noteq> []" "m \<noteq> email user"
    and "findByEmail store m \<noteq> None"
  shows "userUpdateProfile rt now i updateData store = (Inl DUPLICATE_EMAIL, store)"
  using assms by (auto simp: userUpdateProfile_def split: option.splits)

text \<open>Every failure of \<open>userUpdateProfile\<close> leaves the store as it was.\<close>

lemma userUpdateProfile_failure_unchanged:
  assumes "userUpdateProfile rt now i updateData store = (Inl e, store')"
  shows "store' = store"
  using assms
  by (auto simp: userUpdateProfile_def update_def Let_def split: if_splits option.splits)

subsection \<open>Claim C8\<close>

text \<open>
  C8: for a registration body that passes \<open>registerSchema\<close> and whose username and email
  collide, up to letter case, with those of no stored account, \<open>userRegister\<close> succeeds;
  the account stored under the new identifier has status \<open>pendente\<close>,
  \<open>loginAttempts = 0\<close> and \<open>dateCreated = dateModified = now\<close>; and the response consists
  of the seven public fields, the password hash not being one of them.
\<close>

theorem register_creates_pending_account:
  assumes valid: "registerSchema rt body"
    and freshName: "\<forall>r \<in> set (getAll store).
        toLowerCase (username r) \<noteq> toLowerCase (reg_username body)"
    and freshMail: "\<forall>r \<in> set (getAll store).
        toLowerCase (email r) \<noteq> toLowerCase (reg_email body)"
  shows "fst (userRegister rt now newId body store) =
           Inr \<lparr>res_id = newId, res_username = reg_username body,
                res_email = reg_email body, res_profile = reg_profile body,
                res_avatar = None, res_status = Pendente, res_dateCreated = now\<rparr> \<and>
         getById (snd (userRegister rt now newId body store)) newId =
           Some \<lparr>user_id = newId, username = reg_username body, email = reg_email body,
                 passwordHash = hashPassword rt (reg_password body),
                 profile = reg_profile body, avatar = None, status = Pendente,
                 loginAttempts = 0, lastLoginAttempt = None,
                 dateCreated = now, dateModified = now\<rparr>"
proof -
  have n: "findByUsername store (reg_username body) = None"
    using freshName by (rule findByUsername_None)
  have m: "findByEmail store (reg_email body) = None"
    using freshMail by (rule findByEmail_None)
  show ?thesis
    using valid n m
    by (simp add: userRegister_def Let_def publicProfile_def add_def getById_mapSet_same)
qed

theorem register_creates_pending_account_witness:
  "registerSchema sampleRuntime carolRegistration \<and>
   getAll sampleStore = [alice, bob] \<and>
   toLowerCase (username alice) \<noteq> toLowerCase (reg_username carolRegistration) \<and>
   toLowerCase (username bob) \<noteq> toLowerCase (reg_username carolRegistration) \<and>
   toLowerCase (email alice) \<noteq> toLowerCase (reg_email carolRegistration) \<and>
   toLowerCase (email bob) \<noteq> toLowerCase (reg_email carolRegistration) \<and>
   fst (userRegister sampleRuntime sampleIssuedAt carolId carolRegistration sampleStore) =
     Inr \<lparr>res_id = carolId, res_username = ''carol_7'', res_email = ''carol@example.com'',
          res_profile = Experiente, res_avatar = None, res_status = Pendente,
          res_dateCreated = sampleIssuedAt\<rparr> \<and>
   getById (snd (userRegister sampleRuntime sampleIssuedAt carolId carolRegistration
                   sampleStore)) carolId =
     Some \<lparr>user_id = carolId, username = ''carol_7'', email = ''carol@example.com'',
           passwordHash = ''b1a7a115a15f4430b65f2a41696f27b94444109891d0498ad324f70274e1ca33'',
           profile = Experiente, avatar = None, status = Pendente,
           loginAttempts = 0, lastLoginAttempt = None,
           dateCreated = sampleIssuedAt, dateModified = sampleIssuedAt\<rparr>"
proof -
  have valid: "registerSchema sampleRuntime carolRegistration"
    by (simp add: registerSchema_def usernameSchema_def emailSchema_def passwordSchema_def
        carolRegistration_def sampleRuntime_def isUpper_def isLower_def isDigit_def)
  have freshName: "\<forall>r \<in> set (getAll sampleStore).
      toLowerCase (username r) \<noteq> toLowerCase (reg_username carolRegistration)"
    by (simp add: getAll_def sampleStore_def alice_fields bob_fields carolRegistration_def
        toLowerCase_def toLowerChar_def)
  have freshMail: "\<forall>r \<in> set (getAll sampleStore).
      toLowerCase (email r) \<noteq> toLowerCase (reg_email carolRegistration)"
    by (simp add: getAll_def sampleStore_def alice_fields bob_fields carolRegistration_def
        toLowerCase_def toLowerChar_def)
  have fields: "reg_username carolRegistration = ''carol_7''"
    "reg_email carolRegistration = ''carol@example.com''"
    "reg_profile carolRegistration = Experiente"
    "hashPassword sampleRuntime (reg_password carolRegistration)
       = ''b1a7a115a15f4430b65f2a41696f27b94444109891d0498ad324f70274e1ca33''"
    by (simp_all add: carolRegistration_def hashPassword_def sampleRuntime_def)
  note res = register_creates_pending_account
    [OF valid freshName freshMail, of sampleIssuedAt carolId, unfolded fields]
  have records: "getAll sampleStore = [alice, bob]"
    by (simp add: getAll_def sampleStore_def)
  have each: "toLowerCase (username alice) \<noteq> toLowerCase (reg_username carolRegistration)"
    "toLowerCase (username bob) \<noteq> toLowerCase (reg_username carolRegistration)"
    "toLowerCase (email alice) \<noteq> toLowerCase (reg_email carolRegistration)"
    "toLowerCase (email bob) \<noteq> toLowerCase (reg_email carolRegistration)"
    using freshName freshMail by (simp_all add: records)
  show ?thesis
    using valid records each res[THEN conjunct1] res[THEN conjunct2]
    by (intro conjI)
qed

subsection \<open>Claim C5\<close>

text \<open>
  C5 as stated, that every update of an account with an email equal, up to letter case, to
  the email of another account fails with \<open>DUPLICATE_EMAIL\<close>, fails when the update also
  changes the username to one that is taken: the username is checked first. Here the
  first sample account is updated with both the username and (in capitals) the email of
  the second, and the failure is \<open>DUPLICATE_USERNAME\<close>.
\<close>

theorem update_reports_taken_username_first:
  "paramsSchema sampleRuntime aliceId \<and> updateSchema sampleRuntime nameAndEmailOfBob \<and>
   getById sampleStore aliceId = Some alice \<and> bob \<in> set (getAll sampleStore) \<and>
   user_id bob \<noteq> user_id alice \<and> uniqueEmails sampleStore \<and>
   upd_email nameAndEmailOfBob = Some ''BOB@example.com'' \<and>
   toLowerCase ''BOB@example.com'' = toLowerCase (email bob) \<and>
   userUpdateProfile sampleRuntime sampleIssuedAt aliceId nameAndEmailOfBob sampleStore
     = (Inl DUPLICATE_USERNAME, sampleStore)"
proof -
  have params: "paramsSchema sampleRuntime aliceId"
    by (simp add: paramsSchema_def sampleRuntime_def)
  have valid: "updateSchema sampleRuntime nameAndEmailOfBob"
    by (simp add: updateSchema_def emailSchema_def usernameSchema_def nameAndEmailOfBob_def
        sampleRuntime_def isUpper_def isLower_def isDigit_def)
  have a: "getById sampleStore aliceId = Some alice"
    by (simp add: getById_def sampleStore_def)
  have b: "bob \<in> set (getAll sampleStore)"
    by (simp add: getAll_def sampleStore_def)
  have other: "user_id bob \<noteq> user_id alice"
    by (simp add: alice_fields bob_fields ids_differ)
  have unique: "uniqueEmails sampleStore"
    by (simp add: uniqueEmails_def getAll_def sampleStore_def alice_fields bob_fields
        toLowerCase_def toLowerChar_def)
  have mail: "upd_email nameAndEmailOfBob = Some ''BOB@example.com''"
    "toLowerCase ''BOB@example.com'' = toLowerCase (email bob)"
    by (simp_all add: nameAndEmailOfBob_def bob_fields toLowerCase_def toLowerChar_def)
  have name: "upd_username nameAndEmailOfBob = Some ''bob_42''" "''bob_42'' \<noteq> []"
    "''bob_42'' \<noteq> username alice"
    by (simp_all add: nameAndEmailOfBob_def alice_fields)
  have taken: "findByUsername sampleStore ''bob_42'' \<noteq> None"
    using b by (rule findByUsername_collision) (simp add: bob_fields)
  have run: "userUpdateProfile sampleRuntime sampleIssuedAt aliceId nameAndEmailOfBob sampleStore
     = (Inl DUPLICATE_USERNAME, sampleStore)"
    using params valid a name taken by (rule userUpdateProfile_duplicate_username)
  show ?thesis
    using params valid a b other unique mail run by (intro conjI)
qed

text \<open>
  C5, amended: let \<open>a\<close> be the account stored under \<open>i\<close> and \<open>b\<close> another stored account,
  in a store whose emails are unique up to letter case. A valid update of \<open>a\<close> whose email
  is not empty and equals the email of \<open>b\<close> up to letter case fails and returns the store unchanged, so
  that both records are exactly as before: with \<open>DUPLICATE_EMAIL\<close> when the update does
  not also change the username to one that is taken, and with \<open>DUPLICATE_USERNAME\<close> when
  it does.
\<close>

theorem duplicate_email_update_rejected:
  assumes params: "paramsSchema rt i" and valid: "updateSchema rt updateData"
    and a: "getById store i = Some a"
    and b: "b \<in> set (getAll store)" and other: "user_id b \<noteq> user_id a"
    and unique: "uniqueEmails store"
    and mail: "upd_email updateData = Some m" "m \<noteq> []"
      "toLowerCase m = toLowerCase (email b)"
  shows "((\<forall>n. upd_username updateData = Some n \<longrightarrow>
             n = username a \<or> findByUsername store n = None) \<longrightarrow>
            userUpdateProfile rt now i updateData store = (Inl DUPLICATE_EMAIL, store)) \<and>
         ((\<exists>n. upd_username updateData = Some n \<and> n \<noteq> username a \<and>
             findByUsername store n \<noteq> None) \<longrightarrow>
            userUpdateProfile rt now i updateData store = (Inl DUPLICATE_USERNAME, store)) \<and>
         snd (userUpdateProfile rt now i updateData store) = store \<and>
         getById (snd (userUpdateProfile rt now i updateData store)) i = Some a \<and>
         b \<in> set (getAll (snd (userUpdateProfile rt now i updateData store)))"
proof -
  have amem: "a \<in> set (getAll store)" using a by (rule getById_member)
  have "a \<noteq> b" using other by auto
  then have "toLowerCase (email a) \<noteq> toLowerCase (email b)"
    using unique amem b unfolding uniqueEmails_def
    by (auto simp: distinct_map inj_on_def)
  then have changed: "m \<noteq> email a" using mail(3) by auto
  have taken: "findByEmail store m \<noteq> None"
    using b mail(3)[symmetric] by (rule findByEmail_collision)
  have email: "userUpdateProfile rt now i updateData store = (Inl DUPLICATE_EMAIL, store)"
    if "\<forall>n. upd_username updateData = Some n \<longrightarrow>
             n = username a \<or> findByUsername store n = None"
    using params valid a that mail(1,2) changed taken
    by (rule userUpdateProfile_duplicate_email)
  have name: "userUpdateProfile rt now i updateData store = (Inl DUPLICATE_USERNAME, store)"
    if "\<exists>n. upd_username updateData = Some n \<and> n \<noteq> username a \<and>
             findByUsername store n \<noteq> None"
  proof -
    from that obtain n where n: "upd_username updateData = Some n" "n \<noteq> username a"
      "findByUsername store n \<noteq> None" by blast
    have "usernameSchema n" using valid n(1) by (simp add: updateSchema_def)
    then have "n \<noteq> []" by (auto simp: usernameSchema_def)
    with params valid a n(1) show ?thesis using n(2,3)
      by (rule userUpdateProfile_duplicate_username)
  qed
  have same: "snd (userUpdateProfile rt now i updateData store) = store"
  proof (cases "\<exists>n. upd_username updateData = Some n \<and> n \<noteq> username a \<and>
             findByUsername store n \<noteq> None")
    case True
    then show ?thesis by (simp add: name)
  next
    case False
    then have "\<forall>n. upd_username updateData = Some n \<longrightarrow>
             n = username a \<or> findByUsername store n = None" by blast
    then show ?thesis by (simp add: email)
  qed
  show ?thesis
    using email name a b by (simp add: same)
qed

theorem duplicate_email_update_rejected_witness:
  "paramsSchema sampleRuntime aliceId \<and> updateSchema sampleRuntime emailOfBob \<and>
   getById sampleStore aliceId = Some alice \<and> bob \<in> set (getAll sampleStore) \<and>
   user_id bob \<noteq> user_id alice \<and> uniqueEmails sampleStore \<and>
   upd_username emailOfBob = None \<and> upd_email emailOfBob = Some ''BOB@example.com'' \<and>
   toLowerCase ''BOB@example.com'' = toLowerCase (email bob) \<and>
   userUpdateProfile sampleRuntime sampleIssuedAt aliceId emailOfBob sampleStore
     = (Inl DUPLICATE_EMAIL, sampleStore) \<and>
   updateSchema sampleRuntime nameAndEmailOfBob \<and>
   upd_username nameAndEmailOfBob = Some ''bob_42'' \<and> ''bob_42'' \<noteq> username alice \<and>
   findByUsername sampleStore ''bob_42'' = Some bob \<and>
   upd_email nameAndEmailOfBob = Some ''BOB@example.com'' \<and>
   fst (userUpdateProfile sampleRuntime sampleIssuedAt aliceId nameAndEmailOfBob sampleStore)
     = Inl DUPLICATE_USERNAME \<and>
   snd (userUpdateProfile sampleRuntime sampleIssuedAt aliceId nameAndEmailOfBob sampleStore)
     = sampleStore"
proof -
  have params: "paramsSchema sampleRuntime aliceId"
    by (simp add: paramsSchema_def sampleRuntime_def)
  have valid: "updateSchema sampleRuntime emailOfBob"
    by (simp add: updateSchema_def emailSchema_def emailOfBob_def sampleRuntime_def)
  have valid2: "updateSchema sampleRuntime nameAndEmailOfBob"
    by (simp add: updateSchema_def emailSchema_def usernameSchema_def nameAndEmailOfBob_def
        sampleRuntime_def isUpper_def isLower_def isDigit_def)
  have a: "getById sampleStore aliceId = Some alice"
    by (simp add: getById_def sampleStore_def)
  have b: "bob \<in> set (getAll sampleStore)"
    by (simp add: getAll_def sampleStore_def)
  have other: "user_id bob \<noteq> user_id alice"
    by (simp add: alice_fields bob_fields ids_differ)
  have unique: "uniqueEmails sampleStore"
    by (simp add: uniqueEmails_def getAll_def sampleStore_def alice_fields bob_fields
        toLowerCase_def toLowerChar_def)
  have mail: "upd_email emailOfBob = Some ''BOB@example.com''" "''BOB@example.com'' \<noteq> []"
    "toLowerCase ''BOB@example.com'' = toLowerCase (email bob)"
    by (simp_all add: emailOfBob_def bob_fields toLowerCase_def toLowerChar_def)
  have mail2: "upd_email nameAndEmailOfBob = Some ''BOB@example.com''"
    by (simp add: nameAndEmailOfBob_def)
  have noname: "upd_username emailOfBob = None" by (simp add: emailOfBob_def)
  have free: "\<forall>n. upd_username emailOfBob = Some n \<longrightarrow>
                 n = username alice \<or> findByUsername sampleStore n = None"
    by (simp add: noname)
  have name2: "upd_username nameAndEmailOfBob = Some ''bob_42''"
    "''bob_42'' \<noteq> username alice"
    by (simp_all add: nameAndEmailOfBob_def alice_fields)
  have found2: "findByUsername sampleStore ''bob_42'' = Some bob"
    by (simp add: findByUsername_def getAll_def sampleStore_def alice_fields bob_fields
        toLowerCase_def toLowerChar_def)
  have taken2: "\<exists>n. upd_username nameAndEmailOfBob = Some n \<and> n \<noteq> username alice \<and>
             findByUsername sampleStore n \<noteq> None"
    using name2 found2 by simp
  note res = duplicate_email_update_rejected
    [OF params valid a b other unique mail, of sampleIssuedAt]
  note res2 = duplicate_email_update_rejected
    [OF params valid2 a b other unique mail2 mail(2) mail(3), of sampleIssuedAt]
  have r1: "userUpdateProfile sampleRuntime sampleIssuedAt aliceId emailOfBob sampleStore
     = (Inl DUPLICATE_EMAIL, sampleStore)"
    using res[THEN conjunct1] free by blast
  have r2: "userUpdateProfile sampleRuntime sampleIssuedAt aliceId nameAndEmailOfBob sampleStore
     = (Inl DUPLICATE_USERNAME, sampleStore)"
    using res2[THEN conjunct2, THEN conjunct1] taken2 by blast
  have r2a: "fst (userUpdateProfile sampleRuntime sampleIssuedAt aliceId nameAndEmailOfBob
      sampleStore) = Inl DUPLICATE_USERNAME"
    by (simp add: r2)
  have r2b: "snd (userUpdateProfile sampleRuntime sampleIssuedAt aliceId nameAndEmailOfBob
      sampleStore) = sampleStore"
    using res2 by blast
  show ?thesis
    using params valid a b other unique noname mail(1) mail(3) r1 valid2 name2 found2 mail2
      r2a r2b
    by (intro conjI)
qed

subsection \<open>Claim C10\<close>

text \<open>
  C10: a valid update of the account stored under \<open>i\<close> with a username that differs from
  its own username only in letter case fails with \<open>DUPLICATE_USERNAME\<close>; with an email
  that differs from its own email only in letter case (the username being left alone or
  free) it fails with \<open>DUPLICATE_EMAIL\<close>. The comparison with the current value is
  case-sensitive, the scan of the store is case-insensitive and finds the account itself
  (or an earlier record with the same name). The store is unchanged.
\<close>

theorem case_change_collides_with_own_record:
  assumes params: "paramsSchema rt i" and valid: "updateSchema rt updateData"
    and a: "getById store i = Some a"
  shows "(\<forall>n. upd_username updateData = Some n \<and> n \<noteq> username a \<and>
              toLowerCase n = toLowerCase (username a) \<longrightarrow>
            userUpdateProfile rt now i updateData store = (Inl DUPLICATE_USERNAME, store)) \<and>
         (\<forall>m. upd_email updateData = Some m \<and> m \<noteq> email a \<and>
              toLowerCase m = toLowerCase (email a) \<and>
              (\<forall>n. upd_username updateData = Some n \<longrightarrow>
                 n = username a \<or> findByUsername store n = None) \<longrightarrow>
            userUpdateProfile rt now i updateData store = (Inl DUPLICATE_EMAIL, store))"
proof (intro conjI allI impI)
  fix n
  assume h: "upd_username updateData = Some n \<and> n \<noteq> username a \<and>
              toLowerCase n = toLowerCase (username a)"
  have amem: "a \<in> set (getAll store)" using a by (rule getById_member)
  have ne: "n \<noteq> []"
  proof
    assume "n = []"
    then have "toLowerCase (username a) = []" using h by (simp add: toLowerCase_def)
    then have "username a = []" by (simp only: toLowerCase_Nil)
    then show False using h \<open>n = []\<close> by simp
  qed
  have taken: "findByUsername store n \<noteq> None"
    using amem by (rule findByUsername_collision) (simp add: h)
  show "userUpdateProfile rt now i updateData store = (Inl DUPLICATE_USERNAME, store)"
    using params valid a _ ne _ taken
    by (rule userUpdateProfile_duplicate_username) (simp_all add: h)
next
  fix m
  assume h: "upd_email updateData = Some m \<and> m \<noteq> email a \<and>
              toLowerCase m = toLowerCase (email a) \<and>
              (\<forall>n. upd_username updateData = Some n \<longrightarrow>
                 n = username a \<or> findByUsername store n = None)"
  have amem: "a \<in> set (getAll store)" using a by (rule getById_member)
  have ne: "m \<noteq> []"
  proof
    assume "m = []"
    then have "toLowerCase (email a) = []" using h by (simp add: toLowerCase_def)
    then have "email a = []" by (simp only: toLowerCase_Nil)
    then show False using h \<open>m = []\<close> by simp
  qed
  have taken: "findByEmail store m \<noteq> None"
    using amem by (rule findByEmail_collision) (simp add: h)
  show "userUpdateProfile rt now i updateData store = (Inl DUPLICATE_EMAIL, store)"
    using params valid a _ _ ne _ taken
    by (rule userUpdateProfile_duplicate_email) (simp_all add: h)
qed

theorem case_change_collides_with_own_record_witness:
  "paramsSchema sampleRuntime aliceId \<and>
   updateSchema sampleRuntime upperCaseName \<and> updateSchema sampleRuntime upperCaseEmail \<and>
   getById sampleStore aliceId = Some alice \<and>
   upd_username upperCaseName = Some ''ALICE'' \<and> ''ALICE'' \<noteq> username alice \<and>
   toLowerCase ''ALICE'' = toLowerCase (username alice) \<and>
   userUpdateProfile sampleRuntime sampleIssuedAt aliceId upperCaseName sampleStore
     = (Inl DUPLICATE_USERNAME, sampleStore) \<and>
   upd_email upperCaseEmail = Some ''Alice@example.com'' \<and>
   ''Alice@example.com'' \<noteq> email alice \<and>
   toLowerCase ''Alice@example.com'' = toLowerCase (email alice) \<and>
   upd_username upperCaseEmail = None \<and>
   userUpdateProfile sampleRuntime sampleIssuedAt aliceId upperCaseEmail sampleStore
     = (Inl DUPLICATE_EMAIL, sampleStore)"
proof -
  have params: "paramsSchema sampleRuntime aliceId"
    by (simp add: paramsSchema_def sampleRuntime_def)
  have valid1: "updateSchema sampleRuntime upperCaseName"
    by (simp add: updateSchema_def usernameSchema_def upperCaseName_def
        isUpper_def isLower_def isDigit_def)
  have valid2: "updateSchema sampleRuntime upperCaseEmail"
    by (simp add: updateSchema_def emailSchema_def upperCaseEmail_def sampleRuntime_def)
  have a: "getById sampleStore aliceId = Some alice"
    by (simp add: getById_def sampleStore_def)
  have n: "upd_username upperCaseName = Some ''ALICE''" "''ALICE'' \<noteq> username alice"
    "toLowerCase ''ALICE'' = toLowerCase (username alice)"
    by (simp_all add: upperCaseName_def alice_fields toLowerCase_def toLowerChar_def)
  have m: "upd_email upperCaseEmail = Some ''Alice@example.com''"
    "''Alice@example.com'' \<noteq> email alice"
    "toLowerCase ''Alice@example.com'' = toLowerCase (email alice)"
    "upd_username upperCaseEmail = None"
    by (simp_all add: upperCaseEmail_def alice_fields toLowerCase_def toLowerChar_def)
  from case_change_collides_with_own_record[OF params valid1 a, of sampleIssuedAt] n
  have r1: "userUpdateProfile sampleRuntime sampleIssuedAt aliceId upperCaseName sampleStore
     = (Inl DUPLICATE_USERNAME, sampleStore)"
    by blast
  have free: "\<forall>n. upd_username upperCaseEmail = Some n \<longrightarrow>
                 n = username alice \<or> findByUsername sampleStore n = None"
    by (simp add: m)
  from case_change_collides_with_own_record[OF params valid2 a, of sampleIssuedAt] m free
  have r2: "userUpdateProfile sampleRuntime sampleIssuedAt aliceId upperCaseEmail sampleStore
     = (Inl DUPLICATE_EMAIL, sampleStore)"
    by blast
  show ?thesis
    using params valid1 valid2 a n m r1 r2 by (intro conjI)
qed

section \<open>The invariants of the store\<close>

text \<open>
  \<open>wellFormed\<close> and \<open>uniqueEmails\<close>, the hypotheses on the store used above, hold of the
  empty store and are kept by registration, login and profile update.
\<close>

lemma wellFormed_empty: "wellFormed []" and uniqueEmails_empty: "uniqueEmails []"
  by (simp_all add: wellFormed_def uniqueEmails_def getAll_def)

lemma wellFormed_update:
  assumes "wellFormed store" "\<And>r. user_id (f r) = user_id r"
  shows "wellFormed (snd (update store k f))"
proof (cases "getById store k")
  case None
  then show ?thesis using assms(1) by (simp add: update_def)
next
  case (Some r)
  then have "r \<in> set (getAll store)" by (rule getById_member)
  then have "getById store (user_id r) = Some r" using assms(1) by (simp add: wellFormed_getById)
  have "(k, r) \<in> set store" using Some unfolding getById_def by (rule map_of_SomeD)
  then have "user_id r = k" using assms(1) unfolding wellFormed_def list_all_iff by auto
  then have "user_id (f r) = k" using assms(2) by simp
  with assms(1) have "wellFormed (mapSet store k (f r))" by (rule wellFormed_mapSet)
  then show ?thesis using Some by (simp add: update_def Let_def)
qed

lemma wellFormed_userRegister:
  "wellFormed store \<Longrightarrow> wellFormed (snd (userRegister rt now newId body store))"
  by (simp add: userRegister_def Let_def add_def wellFormed_mapSet)

lemma wellFormed_userLogin:
  assumes "wellFormed store"
  shows "wellFormed (snd (userLogin rt clock body store))"
proof -
  have u: "wellFormed (snd (update s k f))"
    if "wellFormed s" "\<And>r. user_id (f r) = user_id r" for s k f
    using that by (rule wellFormed_update)
  show ?thesis
    using assms
    by (simp add: userLogin_def Let_def u split: option.splits)
qed

lemma wellFormed_userUpdateProfile:
  assumes "wellFormed store"
  shows "wellFormed (snd (userUpdateProfile rt now i updateData store))"
proof -
  have "wellFormed (snd (update store i (applyUpdateData updateData now)))"
    using assms by (rule wellFormed_update) (simp add: applyUpdateData_def)
  then show ?thesis
    using assms
    by (auto simp: userUpdateProfile_def split: option.splits prod.splits)
qed

lemma userLogin_keeps_emails:
  "wellFormed store \<Longrightarrow>
   map email (getAll (snd (userLogin rt clock body store))) = map email (getAll store)"
proof -
  assume wf: "wellFormed store"
  have u: "map email (getAll (snd (update s k f))) = map email (getAll s)"
    if "wellFormed s" "\<And>r. email (f r) = email r" for s k f
  proof (cases "getById s k")
    case None
    then show ?thesis by (simp add: update_def)
  next
    case (Some r)
    then have key: "k \<in> fst ` set s"
      unfolding getById_def by (auto dest: map_of_SomeD intro: rev_image_eqI)
    have mem: "r \<in> set (getAll s)" using Some by (rule getById_member)
    have only: "x = r" if "x \<in> set (getAll s)" "user_id x = k" for x
    proof -
      have "getById s (user_id x) = Some x" using \<open>wellFormed s\<close> that(1)
        by (rule wellFormed_getById)
      then show ?thesis using Some that(2) by simp
    qed
    have "map email (map (\<lambda>x. if user_id x = k then f r else x) (getAll s))
        = map email (getAll s)"
      using only that(2) by (auto intro: map_idI simp: comp_def)
    then show ?thesis
      using Some by (simp add: update_def Let_def getAll_mapSet[OF \<open>wellFormed s\<close> key])
  qed
  have w: "wellFormed (snd (update s k f))"
    if "wellFormed s" "\<And>r. user_id (f r) = user_id r" for s k f
    using that by (rule wellFormed_update)
  show ?thesis
    using wf by (simp add: userLogin_def Let_def u w split: option.splits)
qed

lemma uniqueEmails_userLogin:
  "wellFormed store \<Longrightarrow> uniqueEmails store \<Longrightarrow>
   uniqueEmails (snd (userLogin rt clock body store))"
proof -
  assume wf: "wellFormed store" and un: "uniqueEmails store"
  have "map (\<lambda>r. toLowerCase (email r)) (getAll (snd (userLogin rt clock body store)))
      = map toLowerCase (map email (getAll (snd (userLogin rt clock body store))))"
    by (simp add: comp_def)
  also have "\<dots> = map toLowerCase (map email (getAll store))"
    by (simp only: userLogin_keeps_emails[OF wf])
  also have "\<dots> = map (\<lambda>r. toLowerCase (email r)) (getAll store)"
    by (simp add: comp_def)
  finally show ?thesis using un unfolding uniqueEmails_def by simp
qed

text \<open>Replacing or appending a record whose key value is new keeps the values distinct.\<close>

lemma values_mapSet: "snd ` set (mapSet store k v) \<subseteq> insert v (snd ` set store)"
proof (induction store)
  case Nil
  show ?case by simp
next
  case (Cons e store)
  obtain k' r' where e: "e = (k', r')" by (cases e)
  show ?case
  proof (cases "k' = k")
    case True
    then show ?thesis by (auto simp: e)
  next
    case False
    then show ?thesis using Cons.IH by (auto simp: e)
  qed
qed

lemma distinct_mapSet_fresh:
  assumes "distinct (map g (map snd store))" "g v \<notin> g ` snd ` set store"
  shows "distinct (map g (map snd (mapSet store k v)))"
  using assms
proof (induction store)
  case Nil
  show ?case by simp
next
  case (Cons e store)
  obtain k' r' where e: "e = (k', r')" by (cases e)
  show ?case
  proof (cases "k' = k")
    case True
    then show ?thesis using Cons.prems by (auto simp: e)
  next
    case False
    have d: "distinct (map g (map snd store))" and f: "g v \<notin> g ` snd ` set store"
      and h: "g r' \<notin> g ` snd ` set store" and n: "g v \<noteq> g r'"
      using Cons.prems by (auto simp: e)
    have "g r' \<notin> g ` snd ` set (mapSet store k v)"
    proof
      assume "g r' \<in> g ` snd ` set (mapSet store k v)"
      then obtain x where x: "x \<in> snd ` set (mapSet store k v)" "g r' = g x" by auto
      then have "x = v \<or> x \<in> snd ` set store" using values_mapSet[of store k v] by auto
      then show False using x(2) h n by auto
    qed
    then show ?thesis using False Cons.IH[OF d f] by (simp add: e image_image)
  qed
qed

lemma uniqueEmails_userRegister:
  assumes "uniqueEmails store"
  shows "uniqueEmails (snd (userRegister rt now newId body store))"
proof (cases "fst (userRegister rt now newId body store)")
  case (Inl e)
  then have "snd (userRegister rt now newId body store) = store"
    by (auto simp: userRegister_def Let_def split: if_splits)
  then show ?thesis using assms by simp
next
  case (Inr p)
  then have none: "findByEmail store (reg_email body) = None"
    by (auto simp: userRegister_def Let_def split: if_splits)
  then have fresh: "toLowerCase (reg_email body) \<notin> (\<lambda>r. toLowerCase (email r)) ` snd ` set store"
    by (auto simp: findByEmail_def find_None_iff getAll_def)
  have st: "snd (userRegister rt now newId body store) =
      mapSet store newId
        \<lparr>user_id = newId, username = reg_username body, email = reg_email body,
         passwordHash = hashPassword rt (reg_password body), profile = reg_profile body,
         avatar = None, status = Pendente, loginAttempts = 0, lastLoginAttempt = None,
         dateCreated = now, dateModified = now\<rparr>"
    using Inr by (auto simp: userRegister_def Let_def add_def split: if_splits)
  have d: "distinct (map (\<lambda>r. toLowerCase (email r)) (map snd store))"
    using assms by (simp add: uniqueEmails_def getAll_def)
  show ?thesis
    unfolding st uniqueEmails_def getAll_def
    using d by (rule distinct_mapSet_fresh) (simp add: fresh)
qed

lemma distinct_replace_fresh:
  assumes "distinct (map g xs)" "g v \<notin> g ` set xs"
    and "\<And>x y. x \<in> set xs \<Longrightarrow> y \<in> set xs \<Longrightarrow> P x \<Longrightarrow> P y \<Longrightarrow> x = y"
  shows "distinct (map g (map (\<lambda>r. if P r then v else r) xs))"
  using assms
proof (induction xs)
  case Nil
  show ?case by simp
next
  case (Cons x xs)
  have d: "distinct (map g xs)" and gx: "g x \<notin> g ` set xs" and gv: "g v \<notin> g ` set xs"
    and vx: "g v \<noteq> g x"
    using Cons.prems(1,2) by auto
  have one: "\<And>a b. a \<in> set xs \<Longrightarrow> b \<in> set xs \<Longrightarrow> P a \<Longrightarrow> P b \<Longrightarrow> a = b"
    using Cons.prems(3) by simp
  note IH = Cons.IH[OF d gv one]
  show ?case
  proof (cases "P x")
    case True
    have "\<not> P y" if "y \<in> set xs" for y
    proof
      assume "P y"
      then have "x = y" using Cons.prems(3)[of x y] True that by simp
      then show False using gx that by auto
    qed
    then have "map (\<lambda>r. if P r then v else r) xs = xs" by (simp add: map_idI)
    then show ?thesis using True d gv by simp
  next
    case False
    have "g x \<notin> (\<lambda>r. g (if P r then v else r)) ` set xs"
    proof
      assume "g x \<in> (\<lambda>r. g (if P r then v else r)) ` set xs"
      then obtain y where y: "y \<in> set xs" "g x = g (if P y then v else y)" by blast
      show False
      proof (cases "P y")
        case True
        then show ?thesis using y(2) vx by simp
      next
        case False
        then show ?thesis using y gx by auto
      qed
    qed
    then show ?thesis using False IH by (simp add: comp_def)
  qed
qed

lemma uniqueEmails_userUpdateProfile:
  assumes wf: "wellFormed store" and un: "uniqueEmails store"
    and lib: "\<not> isEmail rt []"
  shows "uniqueEmails (snd (userUpdateProfile rt now i updateData store))"
proof (cases "fst (userUpdateProfile rt now i updateData store)")
  case (Inl e)
  then have "userUpdateProfile rt now i updateData store
      = (Inl e, snd (userUpdateProfile rt now i updateData store))"
    by (metis prod.collapse)
  then have "snd (userUpdateProfile rt now i updateData store) = store"
    by (rule userUpdateProfile_failure_unchanged)
  then show ?thesis using un by simp
next
  case (Inr p)
  let ?f = "\<lambda>r. toLowerCase (email r)"
  from Inr obtain user where get: "getById store i = Some user"
    by (auto simp: userUpdateProfile_def split: if_splits option.splits)
  let ?v = "applyUpdateData updateData now user"
  have valid: "updateSchema rt updateData"
    using Inr by (auto simp: userUpdateProfile_def split: if_splits)
  have st: "snd (userUpdateProfile rt now i updateData store) = mapSet store i ?v"
    using Inr get
    by (auto simp: userUpdateProfile_def update_def Let_def split: if_splits)
  have mailcheck: "\<not> (case upd_email updateData of None \<Rightarrow> False
      | Some m \<Rightarrow> m \<noteq> [] \<and> m \<noteq> email user \<and> findByEmail store m \<noteq> None)"
    using Inr get by (auto simp: userUpdateProfile_def split: if_splits)
  have key: "i \<in> fst ` set store"
    using get unfolding getById_def by (auto dest: map_of_SomeD intro: rev_image_eqI)
  have all: "getAll (mapSet store i ?v) = map (\<lambda>r. if user_id r = i then ?v else r) (getAll store)"
    using wf key by (rule getAll_mapSet)
  have mem: "user \<in> set (getAll store)" using get by (rule getById_member)
  have "(i, user) \<in> set store" using get unfolding getById_def by (rule map_of_SomeD)
  then have uid: "user_id user = i"
    using wf unfolding wellFormed_def list_all_iff by auto
  have only: "x = y" if "x \<in> set (getAll store)" "y \<in> set (getAll store)"
    "user_id x = i" "user_id y = i" for x y
    using wellFormed_getById[OF wf that(1)] wellFormed_getById[OF wf that(2)] that(3,4)
    by (metis option.inject)
  have d: "distinct (map ?f (getAll store))" using un by (simp add: uniqueEmails_def)
  show ?thesis
  proof (cases "?f ?v = ?f user")
    case True
    have "?f (if user_id r = i then ?v else r) = ?f r" if "r \<in> set (getAll store)" for r
    proof (cases "user_id r = i")
      case True
      then have "r = user" using only[OF that mem] uid by simp
      then show ?thesis using True \<open>?f ?v = ?f user\<close> by simp
    next
      case False
      then show ?thesis by simp
    qed
    then have "map ?f (map (\<lambda>r. if user_id r = i then ?v else r) (getAll store))
        = map ?f (getAll store)"
      unfolding map_map by (intro map_cong) simp_all
    then show ?thesis unfolding st uniqueEmails_def all using d by (simp only:)
  next
    case False
    then obtain m where m: "upd_email updateData = Some m" "m \<noteq> email user"
      by (cases "upd_email updateData") (auto simp: applyUpdateData_def)
    have vm: "email ?v = m" using m by (simp add: applyUpdateData_def)
    have "isEmail rt m" using valid m by (simp add: updateSchema_def emailSchema_def)
    then have "m \<noteq> []" using lib by auto
    then have "findByEmail store m = None" using mailcheck m by simp
    then have fresh: "?f ?v \<notin> ?f ` set (getAll store)"
      unfolding vm by (auto simp: findByEmail_def find_None_iff)
    have "distinct (map ?f (map (\<lambda>r. if user_id r = i then ?v else r) (getAll store)))"
      using d fresh by (rule distinct_replace_fresh) (rule only)
    then show ?thesis unfolding st uniqueEmails_def all .
  qed
qed

end
